theory Spec2Isabelle
  imports Main "HOL-Library.AList"
begin

section \<open>Sheet names\<close>

text \<open>
  Sheet names are Python strings. A character of a HOL string is read as the code point of
  its number, from 0 to 255; names with code points from 256 on are not represented.
  On these code points \<open>isspace\<close> is Python's \<open>str.isspace\<close>, which decides what
  \<open>str.strip()\<close> removes: the ASCII controls 9 to 13 and 28 to 31, the space 32, the next
  line control 133 and the no-break space 160. \<open>lower_char\<close> is \<open>str.lower()\<close> on one
  character: the capitals 65 to 90, and 192 to 222 without the multiplication sign 215,
  move up by 32, every other code point stays.
\<close>

definition isspace :: "char \<Rightarrow> bool" where
  "isspace c =
     (let n = (of_char c :: nat)
      in (9 \<le> n \<and> n \<le> 13) \<or> (28 \<le> n \<and> n \<le> 32) \<or> n = 133 \<or> n = 160)"

definition strip :: "string \<Rightarrow> string" where
  "strip s = rev (dropWhile isspace (rev (dropWhile isspace s)))"

definition lower_char :: "char \<Rightarrow> char" where
  "lower_char c =
     (let n = (of_char c :: nat)
      in if (65 \<le> n \<and> n \<le> 90) \<or> (192 \<le> n \<and> n \<le> 214) \<or> (216 \<le> n \<and> n \<le> 222)
         then char_of (n + 32) else c)"

definition lower :: "string \<Rightarrow> string" where
  "lower s = map lower_char s"

text \<open>\<open>s.replace(old, new)\<close> for a pattern \<open>old\<close> of one character.\<close>

definition replace :: "char \<Rightarrow> string \<Rightarrow> string \<Rightarrow> string" where
  "replace old new s = concat (map (\<lambda>c. if c = old then new else [c]) s)"

definition normalize_sheet_name :: "string \<Rightarrow> string" where
  "normalize_sheet_name name =
     replace (CHR ''_'') [] (replace (CHR '' '') [] (lower (strip name)))"

section \<open>Spreadsheets as the library presents them\<close>

text \<open>
  A cell value; numeric cells are kept as integers, no property below reads one.
  \<open>Missing\<close> is the value pandas puts where a row has no entry for a column.
\<close>

datatype cell = Text string | Number int | Boolean bool | Missing

text \<open>A row as \<open>row.to_dict()\<close> returns it: column name to cell, in column order.\<close>

type_synonym row_dict = "(string \<times> cell) list"

record dataframe =
  df_columns :: "string list"
  df_rows :: "row_dict list"

text \<open>\<open>df.empty\<close>: some axis has length zero.\<close>

definition df_empty :: "dataframe \<Rightarrow> bool" where
  "df_empty df = (df_rows df = [] \<or> df_columns df = [])"

text \<open>\<open>df.iterrows()\<close> over the default range index: position and row.\<close>

definition iterrows :: "dataframe \<Rightarrow> (nat \<times> row_dict) list" where
  "iterrows df = enumerate 0 (df_rows df)"

text \<open>
  A workbook lists its worksheets in order; reading one either raises (\<open>Inl\<close> the
  exception's message) or gives its table.
\<close>

type_synonym workbook = "(string \<times> (string + dataframe)) list"

definition sheet_names :: "workbook \<Rightarrow> string list" where
  "sheet_names xls = map fst xls"

definition read_excel :: "workbook \<Rightarrow> string \<Rightarrow> string + dataframe" where
  "read_excel xls sheet_name =
     (case map_of xls sheet_name of
        None \<Rightarrow> Inl ''Worksheet not found''
      | Some r \<Rightarrow> r)"

text \<open>
  An uploaded file: its display name, and what \<open>pd.ExcelFile\<close> makes of its bytes
  (\<open>Inl\<close> the message of the exception it raises).
\<close>

record uploaded_file =
  file_name :: string
  file_value :: "string + workbook"

record extracted_row =
  data :: row_dict
  source_file :: string
  source_sheet :: string
  row_index :: nat

section \<open>Dictionaries\<close>

text \<open>
  A Python dict is an association list in insertion order; \<open>AList.update\<close> is the
  assignment \<open>d[k] = v\<close>. A \<open>defaultdict(list)\<close> reads a missing key as \<open>[]\<close>.
\<close>

definition dd_get :: "('k \<times> 'v list) list \<Rightarrow> 'k \<Rightarrow> 'v list" where
  "dd_get d k = (case map_of d k of None \<Rightarrow> [] | Some vs \<Rightarrow> vs)"

text \<open>\<open>d[k].append(v)\<close> and \<open>d[k].extend(vs)\<close> on a \<open>defaultdict(list)\<close>.\<close>

definition dd_append :: "'k \<Rightarrow> 'v \<Rightarrow> ('k \<times> 'v list) list \<Rightarrow> ('k \<times> 'v list) list" where
  "dd_append k v d = AList.update k (dd_get d k @ [v]) d"

definition dd_extend :: "'k \<Rightarrow> 'v list \<Rightarrow> ('k \<times> 'v list) list \<Rightarrow> ('k \<times> 'v list) list" where
  "dd_extend k vs d = AList.update k (dd_get d k @ vs) d"

type_synonym results = "(string \<times> extracted_row list) list"

section \<open>Processing one file\<close>

text \<open>
  The lines of the file log, one constructor for each message the code formats, with
  the values it interpolates.
\<close>

datatype log_text =
    ProcessingFile string
  | FoundSheets nat "string list"
  | SheetEmpty string
  | FoundSheet string nat nat
  | ErrorReadingSheet string string
  | SheetNotFound string
  | NoMatchingSheets
  | SuccessfullyProcessed nat
  | ErrorProcessingFile string string

text \<open>The temporary directory: the paths that exist in it.\<close>

type_synonym tmpdir = "nat list"

text \<open>\<open>NamedTemporaryFile(delete=False)\<close>: a file under a name not in use.\<close>

definition named_temporary_file :: "tmpdir \<Rightarrow> nat \<times> tmpdir" where
  "named_temporary_file fs = (let p = Suc (fold max fs 0) in (p, p # fs))"

definition unlink :: "nat \<Rightarrow> tmpdir \<Rightarrow> tmpdir" where
  "unlink p fs = removeAll p fs"

definition build_sheet_mapping :: "string list \<Rightarrow> (string \<times> string) list" where
  "build_sheet_mapping names =
     fold (\<lambda>sheet_name m. AList.update (normalize_sheet_name sheet_name) sheet_name m) names []"

text \<open>One round of the loop over the target sheets.\<close>

definition process_target ::
  "string \<Rightarrow> workbook \<Rightarrow> (string \<times> string) list \<Rightarrow> string \<Rightarrow>
   results \<times> log_text list \<times> nat \<Rightarrow> results \<times> log_text list \<times> nat" where
  "process_target fname xls sheet_mapping target_sheet acc =
     (case acc of (res, file_log, matches_found) \<Rightarrow>
        (case map_of sheet_mapping (normalize_sheet_name target_sheet) of
           None \<Rightarrow> (res, file_log @ [SheetNotFound target_sheet], matches_found)
         | Some original_sheet \<Rightarrow>
             (case read_excel xls original_sheet of
                Inl e \<Rightarrow> (res, file_log @ [ErrorReadingSheet original_sheet e], matches_found)
              | Inr df \<Rightarrow>
                  if df_empty df
                  then (res, file_log @ [SheetEmpty original_sheet], matches_found)
                  else (fold (\<lambda>(index, row_data). dd_append target_sheet
                                \<lparr>data = row_data, source_file = fname,
                                 source_sheet = original_sheet, row_index = index\<rparr>)
                             (iterrows df) res,
                        file_log @ [FoundSheet original_sheet (length (df_rows df))
                                      (length (df_columns df))],
                        matches_found + 1))))"

definition process_excel_file ::
  "uploaded_file \<Rightarrow> string list \<Rightarrow> tmpdir \<Rightarrow> (results \<times> log_text list) \<times> tmpdir" where
  "process_excel_file file target_sheets fs =
     (case named_temporary_file fs of (tmp_file_path, fs1) \<Rightarrow>
        (case file_value file of
           Inl e \<Rightarrow> (([], [ErrorProcessingFile (file_name file) e]), fs1)
         | Inr xls \<Rightarrow>
             (case fold (process_target (file_name file) xls
                           (build_sheet_mapping (sheet_names xls)))
                        target_sheets
                        ([], [ProcessingFile (file_name file),
                              FoundSheets (length (sheet_names xls)) (sheet_names xls)], 0)
              of (res, file_log, matches_found) \<Rightarrow>
                ((res, file_log @ [if matches_found = 0 then NoMatchingSheets
                                   else SuccessfullyProcessed matches_found]),
                 unlink tmp_file_path fs1))))"

text \<open>What a file yields does not depend on the temporary directory it was given.\<close>

definition file_results :: "uploaded_file \<Rightarrow> string list \<Rightarrow> results" where
  "file_results file target_sheets = fst (fst (process_excel_file file target_sheets []))"

definition file_log_of :: "uploaded_file \<Rightarrow> string list \<Rightarrow> log_text list" where
  "file_log_of file target_sheets = snd (fst (process_excel_file file target_sheets []))"

section \<open>Export\<close>

text \<open>The row handed to the table: the data and the three provenance columns.\<close>

definition export_row :: "extracted_row \<Rightarrow> row_dict" where
  "export_row item =
     AList.update ''_Original_Row'' (Number (int (row_index item)))
       (AList.update ''_Source_Sheet'' (Text (source_sheet item))
          (AList.update ''_Source_File'' (Text (source_file item)) (data item)))"

text \<open>
  \<open>pd.DataFrame(all_rows)\<close> on a list of dicts: the columns are the keys of all rows in
  the order they are first seen, and a row has \<open>Missing\<close> where it has no such key.
\<close>

definition DataFrame :: "row_dict list \<Rightarrow> dataframe" where
  "DataFrame all_rows =
     (let cols = rev (remdups (rev (concat (map (map fst) all_rows))))
      in \<lparr>df_columns = cols,
          df_rows = map (\<lambda>r. map (\<lambda>c. (c, case map_of r c of None \<Rightarrow> Missing | Some v \<Rightarrow> v)) cols)
                        all_rows\<rparr>)"

text \<open>
  The document is given by its worksheets, names and tables; \<open>None\<close> is Python's
  \<open>None\<close>. The bytes the writer produces are the library's matter.
\<close>

definition create_individual_excel_file ::
  "string \<Rightarrow> extracted_row list \<Rightarrow> (string \<times> dataframe) list option" where
  "create_individual_excel_file sheet_name data_list =
     (if data_list = [] then None
      else Some [(''Data'', DataFrame (map export_row data_list))])"

section \<open>The session\<close>

record log_entry =
  message :: log_text
  entry_type :: string

text \<open>
  The three parts of the session state, and the temporary directory of the host beside
  them (which no reset touches).
\<close>

record app_state =
  merged_data :: results
  processed_files :: "string set"
  processing_log :: "log_entry list"
  tmp_files :: tmpdir

definition init_state :: "tmpdir \<Rightarrow> app_state" where
  "init_state fs = \<lparr>merged_data = [], processed_files = {}, processing_log = [], tmp_files = fs\<rparr>"

definition log_message :: "log_text \<Rightarrow> string \<Rightarrow> app_state \<Rightarrow> app_state" where
  "log_message msg msg_type st =
     st\<lparr>processing_log := processing_log st @ [\<lparr>message = msg, entry_type = msg_type\<rparr>]\<rparr>"

definition reset_all_data :: "app_state \<Rightarrow> app_state" where
  "reset_all_data st = st\<lparr>merged_data := [], processed_files := {}, processing_log := []\<rparr>"

definition clear_log :: "app_state \<Rightarrow> app_state" where
  "clear_log st = st\<lparr>processing_log := []\<rparr>"

text \<open>Adding one file's results to the session data.\<close>

definition merge_results :: "results \<Rightarrow> results \<Rightarrow> results" where
  "merge_results file_res md =
     fold (\<lambda>(sheet_name, data_list). dd_extend sheet_name data_list) file_res md"

text \<open>The body of the loop over the files to process.\<close>

definition process_one :: "string list \<Rightarrow> uploaded_file \<Rightarrow> app_state \<Rightarrow> app_state" where
  "process_one target_sheets file st =
     (case process_excel_file file target_sheets (tmp_files st) of
        ((file_res, file_log), fs') \<Rightarrow>
          fold (\<lambda>log_entry. log_message log_entry ''info'') file_log
            (st\<lparr>merged_data := merge_results file_res (merged_data st),
                processed_files := insert (file_name file) (processed_files st),
                tmp_files := fs'\<rparr>))"

text \<open>The files a press of the button processes; the limit \<open>None\<close> is "All Files".\<close>

definition files_to_process ::
  "nat option \<Rightarrow> uploaded_file list \<Rightarrow> string list \<Rightarrow> app_state \<Rightarrow> uploaded_file list" where
  "files_to_process preview_limit uploaded_files target_sheets st =
     (if uploaded_files \<noteq> [] \<and> target_sheets \<noteq> [] then
        (let new_files = filter (\<lambda>f. file_name f \<notin> processed_files st) uploaded_files
         in case preview_limit of None \<Rightarrow> new_files | Some n \<Rightarrow> take n new_files)
      else [])"

definition process_files ::
  "nat option \<Rightarrow> uploaded_file list \<Rightarrow> string list \<Rightarrow> app_state \<Rightarrow> app_state" where
  "process_files preview_limit uploaded_files target_sheets st =
     fold (process_one target_sheets)
       (files_to_process preview_limit uploaded_files target_sheets st) st"

text \<open>The sheet names typed by the user, separated by commas.\<close>

fun split_comma :: "string \<Rightarrow> string list" where
  "split_comma [] = [[]]"
| "split_comma (c # cs) =
     (if c = CHR '','' then [] # split_comma cs
      else (case split_comma cs of [] \<Rightarrow> [[c]] | p # ps \<Rightarrow> (c # p) # ps))"

definition parse_target_sheets :: "string \<Rightarrow> string list" where
  "parse_target_sheets sheet_input =
     (if strip sheet_input \<noteq> []
      then map strip (filter (\<lambda>sheet. strip sheet \<noteq> []) (split_comma sheet_input))
      else [])"

text \<open>
  What the user can do in a session, and the session after a sequence of such actions.
  Beside the state, \<open>run_hist\<close> records the files processed since the last reset, each
  with the target sheets it was processed for.
\<close>

datatype action =
    ProcessFiles "nat option" "uploaded_file list" "string list"
  | ResetAll
  | ClearLog

fun step :: "action \<Rightarrow> app_state \<Rightarrow> app_state" where
  "step (ProcessFiles preview_limit uploaded_files target_sheets) st =
     process_files preview_limit uploaded_files target_sheets st"
| "step ResetAll st = reset_all_data st"
| "step ClearLog st = clear_log st"

definition run :: "action list \<Rightarrow> app_state \<Rightarrow> app_state" where
  "run acts st = fold step acts st"

type_synonym history = "(uploaded_file \<times> string list) list"

fun step_hist :: "action \<Rightarrow> app_state \<times> history \<Rightarrow> app_state \<times> history" where
  "step_hist (ProcessFiles preview_limit uploaded_files target_sheets) (st, h) =
     (process_files preview_limit uploaded_files target_sheets st,
      h @ map (\<lambda>f. (f, target_sheets))
            (files_to_process preview_limit uploaded_files target_sheets st))"
| "step_hist ResetAll (st, h) = (reset_all_data st, [])"
| "step_hist ClearLog (st, h) = (clear_log st, h)"

definition run_hist :: "action list \<Rightarrow> app_state \<times> history \<Rightarrow> app_state \<times> history" where
  "run_hist acts sh = fold step_hist acts sh"

section \<open>Auxiliary notions\<close>

text \<open>The rows one round of the target loop adds under its target.\<close>

definition round_rows ::
  "string \<Rightarrow> workbook \<Rightarrow> (string \<times> string) list \<Rightarrow> string \<Rightarrow> extracted_row list" where
  "round_rows fname xls sheet_mapping target_sheet =
     dd_get (fst (process_target fname xls sheet_mapping target_sheet ([], [], 0))) target_sheet"

text \<open>The keys of a dictionary, and: no key holds the empty list.\<close>

definition keys :: "('k \<times> 'v) list \<Rightarrow> 'k set" where
  "keys d = fst ` set d"

definition no_empty_value :: "('k \<times> 'v list) list \<Rightarrow> bool" where
  "no_empty_value d = list_all (\<lambda>(k, vs). vs \<noteq> []) d"

text \<open>A small workbook and two uploads of the same display name, for concrete runs.\<close>

definition ex_df :: dataframe where
  "ex_df = \<lparr>df_columns = [''A''], df_rows = [[(''A'', Number 1)]]\<rparr>"

definition ex_df2 :: dataframe where
  "ex_df2 = \<lparr>df_columns = [''A''], df_rows = [[(''A'', Number 2)]]\<rparr>"

definition ex_file :: uploaded_file where
  "ex_file = \<lparr>file_name = ''a.xlsx'', file_value = Inr [(''S'', Inr ex_df)]\<rparr>"

definition ex_file2 :: uploaded_file where
  "ex_file2 = \<lparr>file_name = ''a.xlsx'', file_value = Inr [(''S'', Inr ex_df2)]\<rparr>"

text \<open>A workbook with two worksheets of the same normal form.\<close>

definition ex_file_dup :: uploaded_file where
  "ex_file_dup =
     \<lparr>file_name = ''b.xlsx'',
      file_value = Inr [(''Summary'', Inr ex_df), (''summary '', Inr ex_df2)]\<rparr>"

text \<open>Two extracted rows with different columns.\<close>

definition ex_rows :: "extracted_row list" where
  "ex_rows =
     [\<lparr>data = [(''A'', Number 1)], source_file = ''a.xlsx'',
       source_sheet = ''S'', row_index = 0\<rparr>,
      \<lparr>data = [(''B'', Number 2)], source_file = ''b.xlsx'',
       source_sheet = ''s'', row_index = 4\<rparr>]"

text \<open>A file that does not open, and a file with a sheet that fails to read and an empty one.\<close>

definition ex_file_bad :: uploaded_file where
  "ex_file_bad = \<lparr>file_name = ''bad.xlsx'', file_value = Inl ''File is not a zip file''\<rparr>"

definition ex_file_err :: uploaded_file where
  "ex_file_err =
     \<lparr>file_name = ''c.xlsx'',
      file_value = Inr [(''S'', Inl ''boom''),
                        (''E'', Inr \<lparr>df_columns = [''A''], df_rows = []\<rparr>)]\<rparr>"

section \<open>The normal form of a sheet name\<close>





lemma map_of_fold_update:
  "map_of (fold (\<lambda>n m. AList.update (f n) n m) names m0) k =
     (if \<exists>n\<in>set names. f n = k then Some (last (filter (\<lambda>n. f n = k) names))
      else map_of m0 k)"
proof (induction names arbitrary: m0)
  case Nil
  then show ?case by simp
next
  case (Cons a names)
  show ?case
    by (simp add: Cons.IH update_conv' filter_empty_conv)
qed

lemma map_of_build_sheet_mapping:
  "map_of (build_sheet_mapping names) k =
     (if \<exists>n\<in>set names. normalize_sheet_name n = k
      then Some (last (filter (\<lambda>n. normalize_sheet_name n = k) names))
      else None)"
  by (simp add: build_sheet_mapping_def map_of_fold_update)







section \<open>Dictionaries and the loop over the targets\<close>

lemma dd_get_update:
  "dd_get (AList.update k v d) k' = (if k' = k then v else dd_get d k')"
  by (simp add: dd_get_def update_conv')

lemma dd_get_dd_append:
  "dd_get (dd_append k v d) k' = dd_get d k' @ (if k' = k then [v] else [])"
  by (simp add: dd_append_def dd_get_update)

lemma dd_get_dd_extend:
  "dd_get (dd_extend k vs d) k' = dd_get d k' @ (if k' = k then vs else [])"
  by (simp add: dd_extend_def dd_get_update)

lemma keys_Nil: "keys [] = {}"
  by (simp add: keys_def)

lemma keys_update: "keys (AList.update k v d) = insert k (keys d)"
  by (simp add: keys_def dom_update)

lemma keys_map_of: "k \<in> keys d \<longleftrightarrow> map_of d k \<noteq> None"
  by (simp add: keys_def map_of_eq_None_iff)

lemma distinct_dd_append: "distinct (map fst d) \<Longrightarrow> distinct (map fst (dd_append k v d))"
  by (simp add: dd_append_def distinct_update)

lemma distinct_dd_extend: "distinct (map fst d) \<Longrightarrow> distinct (map fst (dd_extend k vs d))"
  by (simp add: dd_extend_def distinct_update)

lemma no_empty_value_iff:
  "distinct (map fst d) \<Longrightarrow> no_empty_value d \<longleftrightarrow> (\<forall>k\<in>keys d. dd_get d k \<noteq> [])"
proof (induction d)
  case Nil
  then show ?case by (simp add: no_empty_value_def keys_def)
next
  case (Cons p d)
  obtain k vs where p: "p = (k, vs)" by (cases p)
  from Cons.prems p have nk: "k \<notin> keys d" and dd: "distinct (map fst d)"
    by (simp_all add: keys_def)
  have "\<forall>k'\<in>keys d. dd_get (p # d) k' = dd_get d k'"
    using nk p by (auto simp add: dd_get_def)
  moreover have "dd_get (p # d) k = vs" by (simp add: p dd_get_def)
  moreover have "keys (p # d) = insert k (keys d)" by (simp add: p keys_def)
  moreover have "no_empty_value (p # d) \<longleftrightarrow> vs \<noteq> [] \<and> no_empty_value d"
    by (simp add: p no_empty_value_def)
  ultimately show ?case using Cons.IH [OF dd] by simp
qed

lemma dd_get_Nil: "dd_get [] k = []"
  by (simp add: dd_get_def)

lemma iterrows_Nil_iff: "iterrows df = [] \<longleftrightarrow> df_rows df = []"
  by (cases "df_rows df") (simp_all add: iterrows_def)

lemma fold_dd_append_get:
  "dd_get (fold (\<lambda>(i, r). dd_append t (g i r)) xs res) k =
     dd_get res k @ (if k = t then map (\<lambda>(i, r). g i r) xs else [])"
  by (induction xs arbitrary: res) (auto simp add: dd_get_dd_append)

lemma fold_dd_append_keys:
  "keys (fold (\<lambda>(i, r). dd_append t (g i r)) xs res) =
     keys res \<union> (if xs = [] then {} else {t})"
  by (induction xs arbitrary: res) (auto simp add: dd_append_def keys_update)

lemma fold_dd_append_distinct:
  "distinct (map fst res) \<Longrightarrow>
   distinct (map fst (fold (\<lambda>(i, r). dd_append t (g i r)) xs res))"
  by (induction xs arbitrary: res) (auto simp add: distinct_dd_append)

lemma round_rows_eq:
  "round_rows fname xls m t =
     (case map_of m (normalize_sheet_name t) of
        None \<Rightarrow> []
      | Some original \<Rightarrow>
          (case read_excel xls original of
             Inl e \<Rightarrow> []
           | Inr df \<Rightarrow>
               if df_empty df then []
               else map (\<lambda>(i, r). \<lparr>data = r, source_file = fname,
                                    source_sheet = original, row_index = i\<rparr>)
                        (iterrows df)))"
  by (simp add: round_rows_def process_target_def fold_dd_append_get dd_get_Nil
      split: option.split sum.split)

lemma process_target_get:
  "dd_get (fst (process_target fname xls m t (res, l, n))) k =
     dd_get res k @ (if k = t then round_rows fname xls m t else [])"
  by (simp add: round_rows_eq process_target_def fold_dd_append_get
      split: option.split sum.split)

lemma round_rows_empty_iff:
  "round_rows fname xls m t = [] \<longleftrightarrow>
     (\<forall>original df. map_of m (normalize_sheet_name t) = Some original \<longrightarrow>
         read_excel xls original = Inr df \<longrightarrow> df_empty df)"
  by (auto simp add: round_rows_eq iterrows_Nil_iff df_empty_def split: option.split sum.split)

lemma process_target_keys:
  "keys (fst (process_target fname xls m t (res, l, n))) =
     keys res \<union> (if round_rows fname xls m t = [] then {} else {t})"
  by (auto simp add: round_rows_eq process_target_def fold_dd_append_keys iterrows_Nil_iff
      df_empty_def split: option.split sum.split)

lemma process_target_distinct:
  "distinct (map fst res) \<Longrightarrow>
   distinct (map fst (fst (process_target fname xls m t (res, l, n))))"
  by (simp add: process_target_def fold_dd_append_distinct split: option.split sum.split)

lemma fold_process_target_get:
  "dd_get (fst (fold (process_target fname xls m) ts acc)) k =
     dd_get (fst acc) k @ concat (map (round_rows fname xls m) (filter (\<lambda>t. t = k) ts))"
proof (induction ts arbitrary: acc)
  case Nil
  then show ?case by simp
next
  case (Cons t ts)
  obtain res l n where acc: "acc = (res, l, n)" by (cases acc)
  show ?case by (simp add: Cons.IH acc process_target_get)
qed

lemma fold_process_target_keys:
  "keys (fst (fold (process_target fname xls m) ts acc)) =
     keys (fst acc) \<union> {t \<in> set ts. round_rows fname xls m t \<noteq> []}"
proof (induction ts arbitrary: acc)
  case Nil
  then show ?case by simp
next
  case (Cons t ts)
  obtain res l n where acc: "acc = (res, l, n)" by (cases acc)
  show ?case by (auto simp add: Cons.IH acc process_target_keys)
qed

lemma fold_process_target_distinct:
  "distinct (map fst (fst acc)) \<Longrightarrow>
   distinct (map fst (fst (fold (process_target fname xls m) ts acc)))"
proof (induction ts arbitrary: acc)
  case Nil
  then show ?case by simp
next
  case (Cons t ts)
  obtain res l n where acc: "acc = (res, l, n)" by (cases acc)
  from Cons.prems have "distinct (map fst (fst (process_target fname xls m t acc)))"
    by (simp add: acc process_target_distinct)
  then show ?case by (simp add: Cons.IH)
qed

lemma concat_filter_eq:
  "concat (map g (filter (\<lambda>t. t = k) ts)) = concat (replicate (count_list ts k) (g k))"
  by (induction ts) simp_all

lemma process_excel_file_fst:
  "fst (process_excel_file file ts fs) = fst (process_excel_file file ts [])"
  by (simp add: process_excel_file_def named_temporary_file_def Let_def
      split: sum.split prod.split)

lemma file_results_Inl: "file_value file = Inl e \<Longrightarrow> file_results file ts = []"
  by (simp add: file_results_def process_excel_file_def named_temporary_file_def Let_def)

lemma file_results_Inr:
  "file_value file = Inr xls \<Longrightarrow>
   file_results file ts =
     fst (fold (process_target (file_name file) xls (build_sheet_mapping (sheet_names xls))) ts
            ([], [ProcessingFile (file_name file),
                  FoundSheets (length (sheet_names xls)) (sheet_names xls)], 0))"
  by (simp add: file_results_def process_excel_file_def named_temporary_file_def Let_def
      split: prod.split)

lemma file_results_get:
  "file_value file = Inr xls \<Longrightarrow>
   dd_get (file_results file ts) k =
     concat (replicate (count_list ts k)
       (round_rows (file_name file) xls (build_sheet_mapping (sheet_names xls)) k))"
  by (simp add: file_results_Inr fold_process_target_get dd_get_Nil concat_filter_eq)

lemma file_results_keys:
  "file_value file = Inr xls \<Longrightarrow>
   keys (file_results file ts) =
     {t \<in> set ts. round_rows (file_name file) xls (build_sheet_mapping (sheet_names xls)) t \<noteq> []}"
  by (simp add: file_results_Inr fold_process_target_keys keys_Nil)

lemma file_results_distinct: "distinct (map fst (file_results file ts))"
  by (cases "file_value file")
    (simp_all add: file_results_Inl file_results_Inr fold_process_target_distinct)

lemma file_results_no_empty: "no_empty_value (file_results file ts)"
proof (cases "file_value file")
  case (Inl e)
  then show ?thesis by (simp add: file_results_Inl no_empty_value_def)
next
  case (Inr xls)
  have "\<forall>k\<in>keys (file_results file ts). dd_get (file_results file ts) k \<noteq> []"
  proof
    fix k assume "k \<in> keys (file_results file ts)"
    then have "k \<in> set ts" and
      "round_rows (file_name file) xls (build_sheet_mapping (sheet_names xls)) k \<noteq> []"
      by (simp_all add: file_results_keys [OF Inr])
    then show "dd_get (file_results file ts) k \<noteq> []"
      by (simp add: file_results_get [OF Inr] count_list_0_iff)
  qed
  then show ?thesis by (simp add: no_empty_value_iff file_results_distinct)
qed

section \<open>The rows of a matched worksheet\<close>

text \<open>
  Claim C1, as amended. Let the file open, let the target's normal form be in the lookup
  of the file's worksheets, and let the worksheet found there read as a table with at
  least one data row (and so with columns). Then the file's results hold, under the
  target name as the user gave it, one row for each data row of that worksheet and for
  each time the target occurs in the target list, in the worksheet's order: the data of the
  row, the display name of the file, the original name of the worksheet and the position of
  the row counted from zero. A target listed once gets exactly one row for each data row.
\<close>

theorem process_excel_file_rows:
  assumes "file_value file = Inr xls"
    and "map_of (build_sheet_mapping (sheet_names xls)) (normalize_sheet_name target) = Some original"
    and "read_excel xls original = Inr df"
    and "df_rows df \<noteq> []" and "df_columns df \<noteq> []"
    and "target \<in> set targets"
  shows "map_of (fst (fst (process_excel_file file targets fs))) target =
     Some (concat (replicate (count_list targets target)
        (map (\<lambda>(i, r). \<lparr>data = r, source_file = file_name file,
                          source_sheet = original, row_index = i\<rparr>)
             (enumerate 0 (df_rows df)))))"
proof -
  let ?m = "build_sheet_mapping (sheet_names xls)"
  let ?rows = "map (\<lambda>(i, r). \<lparr>data = r, source_file = file_name file,
                          source_sheet = original, row_index = i\<rparr>)
             (enumerate 0 (df_rows df))"
  have "fst (process_excel_file file targets fs) = fst (process_excel_file file targets [])"
    by (rule process_excel_file_fst)
  then have res: "fst (fst (process_excel_file file targets fs)) = file_results file targets"
    by (simp add: file_results_def)
  have rr: "round_rows (file_name file) xls ?m target = ?rows"
    using assms(2-5) by (simp add: round_rows_eq df_empty_def iterrows_def)
  have "?rows \<noteq> []" using assms(4) by (cases "df_rows df") simp_all
  with rr assms(6) have "target \<in> keys (file_results file targets)"
    by (simp add: file_results_keys [OF assms(1)])
  then obtain vs where vs: "map_of (file_results file targets) target = Some vs"
    by (auto simp add: keys_map_of)
  then have "dd_get (file_results file targets) target = vs" by (simp add: dd_get_def)
  with rr have "vs = concat (replicate (count_list targets target) ?rows)"
    by (simp add: file_results_get [OF assms(1)])
  with vs res show ?thesis by simp
qed

theorem process_excel_file_rows_witness:
  "map_of (fst (fst (process_excel_file ex_file [''S'', ''T'', ''S''] []))) ''S'' =
     Some [\<lparr>data = [(''A'', Number 1)], source_file = ''a.xlsx'',
            source_sheet = ''S'', row_index = 0\<rparr>,
           \<lparr>data = [(''A'', Number 1)], source_file = ''a.xlsx'',
            source_sheet = ''S'', row_index = 0\<rparr>]"
proof -
  have 1: "file_value ex_file = Inr [(''S'', Inr ex_df)]" by (simp add: ex_file_def)
  have 2: "map_of (build_sheet_mapping (sheet_names [(''S'', Inr ex_df)]))
             (normalize_sheet_name ''S'') = Some ''S''" by code_simp
  have 3: "read_excel [(''S'', Inr ex_df)] ''S'' = Inr ex_df" by (simp add: read_excel_def)
  have 4: "df_rows ex_df \<noteq> []" by (simp add: ex_df_def)
  have 5: "df_columns ex_df \<noteq> []" by (simp add: ex_df_def)
  have 6: "''S'' \<in> set [''S'', ''T'', ''S'']" by simp
  have 7: "file_name ex_file = ''a.xlsx''" by (simp add: ex_file_def)
  have 8: "df_rows ex_df = [[(''A'', Number 1)]]" by (simp add: ex_df_def)
  have 9: "count_list [''S'', ''T'', ''S''] ''S'' = 2" by simp
  from process_excel_file_rows [OF 1 2 3 4 5 6, of "[]"]
  show ?thesis by (simp add: 7 8 9 numeral_2_eq_2)
qed

text \<open>
  A target list with the same name twice, as the input \<open>"S, S"\<close> gives it, yields two
  rows for the one data row of the worksheet.
\<close>

theorem process_excel_file_rows_counterexample:
  "parse_target_sheets ''S, S'' = [''S'', ''S''] \<and>
   file_value ex_file = Inr [(''S'', Inr ex_df)] \<and>
   map_of (build_sheet_mapping (sheet_names [(''S'', Inr ex_df)])) (normalize_sheet_name ''S'')
     = Some ''S'' \<and>
   read_excel [(''S'', Inr ex_df)] ''S'' = Inr ex_df \<and>
   length (df_rows ex_df) = 1 \<and>
   length (dd_get (fst (fst (process_excel_file ex_file [''S'', ''S''] []))) ''S'') = 2"
  by code_simp

section \<open>Worksheets of the same normal form\<close>

lemma process_target_no_file_error:
  "ErrorProcessingFile a b \<in> set (fst (snd (process_target fname xls m t acc))) \<longleftrightarrow>
   ErrorProcessingFile a b \<in> set (fst (snd acc))"
  by (cases acc) (simp add: process_target_def split: option.split sum.split)

lemma fold_process_target_no_file_error:
  "ErrorProcessingFile a b \<in> set (fst (snd (fold (process_target fname xls m) ts acc))) \<longleftrightarrow>
   ErrorProcessingFile a b \<in> set (fst (snd acc))"
  by (induction ts arbitrary: acc) (simp_all add: process_target_no_file_error)

lemma process_excel_file_no_file_error:
  assumes "file_value file = Inr xls"
  shows "ErrorProcessingFile a b \<notin> set (snd (fst (process_excel_file file ts fs)))"
proof -
  let ?acc = "fold (process_target (file_name file) xls (build_sheet_mapping (sheet_names xls)))
     ts ([], [ProcessingFile (file_name file),
              FoundSheets (length (sheet_names xls)) (sheet_names xls)], 0)"
  obtain res l n where acc: "?acc = (res, l, n)" by (cases ?acc)
  have "ErrorProcessingFile a b \<notin> set (fst (snd ?acc))"
    by (simp add: fold_process_target_no_file_error)
  then have "ErrorProcessingFile a b \<notin> set l" by (simp add: acc)
  then show ?thesis
    using assms acc
    by (simp add: process_excel_file_def named_temporary_file_def Let_def)
qed

lemma round_rows_source:
  assumes "r \<in> set (round_rows fname xls m t)"
  shows "map_of m (normalize_sheet_name t) = Some (source_sheet r) \<and>
         source_file r = fname \<and>
         (\<exists>df. read_excel xls (source_sheet r) = Inr df \<and>
               row_index r < length (df_rows df) \<and> data r = df_rows df ! row_index r)"
proof (cases "map_of m (normalize_sheet_name t)")
  case None
  with assms show ?thesis by (simp add: round_rows_eq)
next
  case (Some original)
  show ?thesis
  proof (cases "read_excel xls original")
    case (Inl e)
    with Some assms show ?thesis by (simp add: round_rows_eq)
  next
    case (Inr df)
    from assms Some Inr obtain i rr where
      ir: "(i, rr) \<in> set (enumerate 0 (df_rows df))" and
      r: "r = \<lparr>data = rr, source_file = fname, source_sheet = original, row_index = i\<rparr>"
      by (auto simp add: round_rows_eq iterrows_def split: if_splits)
    from ir have "i < length (df_rows df)" and "df_rows df ! i = rr"
      by (simp_all add: in_set_enumerate_eq)
    with Some Inr r show ?thesis by simp
  qed
qed

lemma file_results_rows:
  assumes "file_value file = Inr xls" and "r \<in> set (dd_get (file_results file ts) t)"
  shows "r \<in> set (round_rows (file_name file) xls (build_sheet_mapping (sheet_names xls)) t)"
  using assms(2) by (auto simp add: file_results_get [OF assms(1)])

lemma read_excel_last:
  assumes "distinct (sheet_names xls)" and "read_excel xls original = Inr df"
    and "map_of (build_sheet_mapping (sheet_names xls)) k = Some original"
  shows "last (filter (\<lambda>p. normalize_sheet_name (fst p) = k) xls) = (original, Inr df)"
proof -
  let ?ms = "filter (\<lambda>p. normalize_sheet_name (fst p) = k) xls"
  have mf: "map fst ?ms = filter (\<lambda>n. normalize_sheet_name n = k) (sheet_names xls)"
    by (simp add: sheet_names_def filter_map comp_def)
  from assms(3) have ex: "\<exists>n\<in>set (sheet_names xls). normalize_sheet_name n = k"
    and o: "original = last (filter (\<lambda>n. normalize_sheet_name n = k) (sheet_names xls))"
    by (simp_all add: map_of_build_sheet_mapping split: if_splits)
  from ex have ne: "filter (\<lambda>n. normalize_sheet_name n = k) (sheet_names xls) \<noteq> []"
    by (simp add: filter_empty_conv)
  with mf have ms: "?ms \<noteq> []" by auto
  then have "fst (last ?ms) = last (map fst ?ms)" by (simp add: last_map)
  with mf o have f: "fst (last ?ms) = original" by simp
  from ms have "last ?ms \<in> set ?ms" by (rule last_in_set)
  then have "last ?ms \<in> set xls" by simp
  then have "(original, snd (last ?ms)) \<in> set xls" using f by (metis prod.collapse)
  with assms(1) have "map_of xls original = Some (snd (last ?ms))"
    by (simp add: sheet_names_def)
  with assms(2) have "snd (last ?ms) = Inr df" by (simp add: read_excel_def)
  with f show ?thesis by (metis prod.collapse)
qed

text \<open>
  Claim C9. The lookup maps a normal form to the last worksheet name of the file that has
  it, whatever the number of worksheets that share it. Processing a file that opens logs no
  file error, and every row found for a target names that last worksheet as its source and
  is a data row of the table read under that name; where the worksheet names of the file
  are distinct, that table is the one of the last worksheet with the target's normal form.
\<close>

theorem sheet_mapping_last_wins:
  "map_of (build_sheet_mapping names) k =
     (if \<exists>n\<in>set names. normalize_sheet_name n = k
      then Some (last (filter (\<lambda>n. normalize_sheet_name n = k) names)) else None) \<and>
   (file_value file = Inr xls \<longrightarrow>
      (\<forall>e. ErrorProcessingFile (file_name file) e
             \<notin> set (snd (fst (process_excel_file file targets fs)))) \<and>
      (\<forall>r\<in>set (dd_get (fst (fst (process_excel_file file targets fs))) target).
         source_sheet r =
           last (filter (\<lambda>n. normalize_sheet_name n = normalize_sheet_name target)
                   (sheet_names xls)) \<and>
         (\<exists>df. read_excel xls (source_sheet r) = Inr df \<and>
               row_index r < length (df_rows df) \<and>
               data r = df_rows df ! row_index r \<and>
               (distinct (sheet_names xls) \<longrightarrow>
                  last (filter (\<lambda>p. normalize_sheet_name (fst p) = normalize_sheet_name target)
                          xls) = (source_sheet r, Inr df)))))"
proof (intro conjI impI allI ballI)
  show "map_of (build_sheet_mapping names) k =
     (if \<exists>n\<in>set names. normalize_sheet_name n = k
      then Some (last (filter (\<lambda>n. normalize_sheet_name n = k) names)) else None)"
    by (rule map_of_build_sheet_mapping)
next
  fix e assume "file_value file = Inr xls"
  then show "ErrorProcessingFile (file_name file) e
             \<notin> set (snd (fst (process_excel_file file targets fs)))"
    by (rule process_excel_file_no_file_error)
next
  fix r
  assume xls: "file_value file = Inr xls"
    and r: "r \<in> set (dd_get (fst (fst (process_excel_file file targets fs))) target)"
  let ?m = "build_sheet_mapping (sheet_names xls)"
  have "fst (process_excel_file file targets fs) = fst (process_excel_file file targets [])"
    by (rule process_excel_file_fst)
  with r have "r \<in> set (dd_get (file_results file targets) target)"
    by (simp add: file_results_def)
  with xls have "r \<in> set (round_rows (file_name file) xls ?m target)"
    by (rule file_results_rows)
  then have m: "map_of ?m (normalize_sheet_name target) = Some (source_sheet r)"
    and ex: "\<exists>df. read_excel xls (source_sheet r) = Inr df \<and>
               row_index r < length (df_rows df) \<and> data r = df_rows df ! row_index r"
    by (simp_all add: round_rows_source)
  from m show "source_sheet r =
           last (filter (\<lambda>n. normalize_sheet_name n = normalize_sheet_name target)
                   (sheet_names xls))"
    by (simp add: map_of_build_sheet_mapping split: if_splits)
  from ex obtain df where df: "read_excel xls (source_sheet r) = Inr df"
    "row_index r < length (df_rows df)" "data r = df_rows df ! row_index r" by blast
  have "distinct (sheet_names xls) \<longrightarrow>
          last (filter (\<lambda>p. normalize_sheet_name (fst p) = normalize_sheet_name target) xls)
            = (source_sheet r, Inr df)"
    using read_excel_last [OF _ df(1) m] by blast
  with df show "\<exists>df. read_excel xls (source_sheet r) = Inr df \<and>
               row_index r < length (df_rows df) \<and>
               data r = df_rows df ! row_index r \<and>
               (distinct (sheet_names xls) \<longrightarrow>
                  last (filter (\<lambda>p. normalize_sheet_name (fst p) = normalize_sheet_name target)
                          xls) = (source_sheet r, Inr df))"
    by blast
qed


theorem sheet_mapping_last_wins_witness:
  "map_of (build_sheet_mapping [''Summary'', ''summary '']) ''summary'' = Some ''summary '' \<and>
   dd_get (fst (fst (process_excel_file ex_file_dup [''summary''] []))) ''summary'' =
     [\<lparr>data = [(''A'', Number 2)], source_file = ''b.xlsx'',
       source_sheet = ''summary '', row_index = 0\<rparr>] \<and>
   source_sheet \<lparr>data = [(''A'', Number 2)], source_file = ''b.xlsx'',
       source_sheet = ''summary '', row_index = 0\<rparr> =
     last (filter (\<lambda>n. normalize_sheet_name n = normalize_sheet_name ''summary'')
             (sheet_names [(''Summary'', Inr ex_df), (''summary '', Inr ex_df2)]))"
proof -
  let ?xls = "[(''Summary'', Inr ex_df), (''summary '', Inr ex_df2)]"
  let ?r = "\<lparr>data = [(''A'', Number 2)], source_file = ''b.xlsx'',
       source_sheet = ''summary '', row_index = 0\<rparr>"
  note inst = sheet_mapping_last_wins
    [of "[''Summary'', ''summary '']" "''summary''" ex_file_dup ?xls "[''summary'']" "[]"
        "''summary''"]
  have fv: "file_value ex_file_dup = Inr ?xls" by (simp add: ex_file_dup_def)
  have rows: "dd_get (fst (fst (process_excel_file ex_file_dup [''summary''] []))) ''summary''
      = [?r]"
    by code_simp
  have n1: "normalize_sheet_name ''Summary'' = ''summary''" by code_simp
  have n2: "normalize_sheet_name ''summary '' = ''summary''" by code_simp
  have "\<exists>n\<in>set [''Summary'', ''summary '']. normalize_sheet_name n = ''summary''"
    using n1 by simp
  moreover have "last (filter (\<lambda>n. normalize_sheet_name n = ''summary'')
      [''Summary'', ''summary '']) = ''summary ''"
    by (simp add: n1 n2)
  ultimately have 1: "map_of (build_sheet_mapping [''Summary'', ''summary '']) ''summary''
      = Some ''summary ''"
    using inst [THEN conjunct1] by (simp only: if_True)
  have mem: "?r \<in> set (dd_get (fst (fst (process_excel_file ex_file_dup [''summary''] [])))
      ''summary'')"
    by (simp only: rows list.set insert_iff simp_thms)
  from inst [THEN conjunct2, rule_format, OF fv, THEN conjunct2, rule_format, OF mem]
  have 3: "source_sheet ?r =
     last (filter (\<lambda>n. normalize_sheet_name n = normalize_sheet_name ''summary'')
             (sheet_names ?xls))"
    by (elim conjE)
  from 1 rows 3 show ?thesis by (intro conjI)
qed

section \<open>The exported table\<close>

lemma map_of_tabulate:
  "map_of (map (\<lambda>c. (c, f c)) cols) c = (if c \<in> set cols then Some (f c) else None)"
  by (induction cols) simp_all

lemma DataFrame_columns:
  "set (df_columns (DataFrame all_rows)) = (\<Union>r\<in>set all_rows. keys r)"
  by (simp add: DataFrame_def Let_def keys_def)

lemma DataFrame_columns_distinct: "distinct (df_columns (DataFrame all_rows))"
  by (simp add: DataFrame_def Let_def)

lemma DataFrame_length: "length (df_rows (DataFrame all_rows)) = length all_rows"
  by (simp add: DataFrame_def Let_def)

lemma DataFrame_row_columns:
  "i < length all_rows \<Longrightarrow>
   map fst (df_rows (DataFrame all_rows) ! i) = df_columns (DataFrame all_rows)"
  by (simp add: DataFrame_def Let_def comp_def)

lemma DataFrame_cell:
  assumes "i < length all_rows"
  shows "map_of (df_rows (DataFrame all_rows) ! i) c =
     (if c \<in> (\<Union>r\<in>set all_rows. keys r)
      then Some (case map_of (all_rows ! i) c of None \<Rightarrow> Missing | Some v \<Rightarrow> v)
      else None)"
proof -
  have "df_rows (DataFrame all_rows) ! i =
      map (\<lambda>c. (c, case map_of (all_rows ! i) c of None \<Rightarrow> Missing | Some v \<Rightarrow> v))
          (df_columns (DataFrame all_rows))"
    using assms by (simp add: DataFrame_def Let_def)
  then show ?thesis
    by (simp only: map_of_tabulate DataFrame_columns)
qed

lemma keys_export_row:
  "keys (export_row item) =
     keys (data item) \<union> {''_Source_File'', ''_Source_Sheet'', ''_Original_Row''}"
  by (auto simp add: export_row_def keys_update)

lemma export_row_provenance:
  "map_of (export_row item) ''_Source_File'' = Some (Text (source_file item))"
  "map_of (export_row item) ''_Source_Sheet'' = Some (Text (source_sheet item))"
  "map_of (export_row item) ''_Original_Row'' = Some (Number (int (row_index item)))"
  by (simp_all add: export_row_def update_conv')

lemma export_row_data:
  "c \<notin> {''_Source_File'', ''_Source_Sheet'', ''_Original_Row''} \<Longrightarrow>
   map_of (export_row item) c = map_of (data item) c"
  by (simp add: export_row_def update_conv')

lemma export_columns:
  assumes "data_list \<noteq> []"
  shows "(\<Union>r\<in>set (map export_row data_list). keys r) =
     (\<Union>item\<in>set data_list. keys (data item)) \<union>
     {''_Source_File'', ''_Source_Sheet'', ''_Original_Row''}"
proof -
  from assms obtain x where "x \<in> set data_list" by (cases data_list) auto
  then show ?thesis by (auto simp add: keys_export_row)
qed

text \<open>
  Claim C4. Exporting no rows gives \<open>None\<close>. Exporting \<open>n > 0\<close> rows gives a document
  with the single worksheet \<open>Data\<close>, whose table has \<open>n\<close> rows; its columns are the
  keys of the data of all rows together with \<open>_Source_File\<close>, \<open>_Source_Sheet\<close> and
  \<open>_Original_Row\<close>; every row of the table has all columns, and holds in the three
  provenance columns the source file, the source sheet and the row index of the
  extracted row at its position.
\<close>

theorem create_individual_excel_file_table:
  "create_individual_excel_file sheet_name [] = None \<and>
   (data_list \<noteq> [] \<longrightarrow>
      (\<exists>df. create_individual_excel_file sheet_name data_list = Some [(''Data'', df)] \<and>
         length (df_rows df) = length data_list \<and>
         set (df_columns df) =
           (\<Union>item\<in>set data_list. keys (data item)) \<union>
           {''_Source_File'', ''_Source_Sheet'', ''_Original_Row''} \<and>
         (\<forall>i<length data_list.
            map fst (df_rows df ! i) = df_columns df \<and>
            map_of (df_rows df ! i) ''_Source_File'' =
              Some (Text (source_file (data_list ! i))) \<and>
            map_of (df_rows df ! i) ''_Source_Sheet'' =
              Some (Text (source_sheet (data_list ! i))) \<and>
            map_of (df_rows df ! i) ''_Original_Row'' =
              Some (Number (int (row_index (data_list ! i)))))))"
proof (intro conjI impI)
  show "create_individual_excel_file sheet_name [] = None"
    by (simp add: create_individual_excel_file_def)
next
  assume ne: "data_list \<noteq> []"
  let ?rows = "map export_row data_list"
  let ?df = "DataFrame ?rows"
  let ?prov = "{''_Source_File'', ''_Source_Sheet'', ''_Original_Row''}"
  have c: "create_individual_excel_file sheet_name data_list = Some [(''Data'', ?df)]"
    using ne by (simp add: create_individual_excel_file_def)
  have l: "length (df_rows ?df) = length data_list" by (simp add: DataFrame_length)
  have cols: "(\<Union>r\<in>set ?rows. keys r) = (\<Union>item\<in>set data_list. keys (data item)) \<union> ?prov"
    using ne by (rule export_columns)
  then have s: "set (df_columns ?df) = (\<Union>item\<in>set data_list. keys (data item)) \<union> ?prov"
    by (simp only: DataFrame_columns)
  have r: "\<forall>i<length data_list.
            map fst (df_rows ?df ! i) = df_columns ?df \<and>
            map_of (df_rows ?df ! i) ''_Source_File'' =
              Some (Text (source_file (data_list ! i))) \<and>
            map_of (df_rows ?df ! i) ''_Source_Sheet'' =
              Some (Text (source_sheet (data_list ! i))) \<and>
            map_of (df_rows ?df ! i) ''_Original_Row'' =
              Some (Number (int (row_index (data_list ! i))))"
  proof (intro allI impI)
    fix i assume i: "i < length data_list"
    then have i': "i < length ?rows" by simp
    have n: "?rows ! i = export_row (data_list ! i)" using i by simp
    have cell: "\<And>c. c \<in> ?prov \<Longrightarrow> map_of (df_rows ?df ! i) c =
        Some (case map_of (export_row (data_list ! i)) c of None \<Rightarrow> Missing | Some v \<Rightarrow> v)"
    proof -
      fix c assume "c \<in> ?prov"
      then have "c \<in> (\<Union>r\<in>set ?rows. keys r)" by (simp only: cols Un_iff simp_thms)
      then show "map_of (df_rows ?df ! i) c =
        Some (case map_of (export_row (data_list ! i)) c of None \<Rightarrow> Missing | Some v \<Rightarrow> v)"
        by (simp only: DataFrame_cell [OF i'] n if_True)
    qed
    have "map fst (df_rows ?df ! i) = df_columns ?df"
      using i' by (rule DataFrame_row_columns)
    moreover have "map_of (df_rows ?df ! i) ''_Source_File'' =
              Some (Text (source_file (data_list ! i)))"
      by (simp add: cell export_row_provenance)
    moreover have "map_of (df_rows ?df ! i) ''_Source_Sheet'' =
              Some (Text (source_sheet (data_list ! i)))"
      by (simp add: cell export_row_provenance)
    moreover have "map_of (df_rows ?df ! i) ''_Original_Row'' =
              Some (Number (int (row_index (data_list ! i))))"
      by (simp add: cell export_row_provenance)
    ultimately show "map fst (df_rows ?df ! i) = df_columns ?df \<and>
            map_of (df_rows ?df ! i) ''_Source_File'' =
              Some (Text (source_file (data_list ! i))) \<and>
            map_of (df_rows ?df ! i) ''_Source_Sheet'' =
              Some (Text (source_sheet (data_list ! i))) \<and>
            map_of (df_rows ?df ! i) ''_Original_Row'' =
              Some (Number (int (row_index (data_list ! i))))"
      by (intro conjI)
  qed
  from c l s r
  show "\<exists>df. create_individual_excel_file sheet_name data_list = Some [(''Data'', df)] \<and>
         length (df_rows df) = length data_list \<and>
         set (df_columns df) =
           (\<Union>item\<in>set data_list. keys (data item)) \<union> ?prov \<and>
         (\<forall>i<length data_list.
            map fst (df_rows df ! i) = df_columns df \<and>
            map_of (df_rows df ! i) ''_Source_File'' =
              Some (Text (source_file (data_list ! i))) \<and>
            map_of (df_rows df ! i) ''_Source_Sheet'' =
              Some (Text (source_sheet (data_list ! i))) \<and>
            map_of (df_rows df ! i) ''_Original_Row'' =
              Some (Number (int (row_index (data_list ! i)))))"
    by (intro exI [of _ ?df] conjI)
qed

theorem create_individual_excel_file_table_witness:
  "ex_rows \<noteq> [] \<and>
   (\<exists>df. create_individual_excel_file ''S'' ex_rows = Some [(''Data'', df)] \<and>
      length (df_rows df) = 2 \<and>
      map_of (df_rows df ! 1) ''_Source_File'' = Some (Text ''b.xlsx'') \<and>
      map_of (df_rows df ! 1) ''_Source_Sheet'' = Some (Text ''s'') \<and>
      map_of (df_rows df ! 1) ''_Original_Row'' = Some (Number 4))"
proof -
  have ne: "ex_rows \<noteq> []" by (simp add: ex_rows_def)
  have len: "length ex_rows = 2" by (simp add: ex_rows_def)
  have one: "(1::nat) < length ex_rows" by (simp add: ex_rows_def)
  have r1: "source_file (ex_rows ! 1) = ''b.xlsx''" by (simp add: ex_rows_def)
  have r2: "source_sheet (ex_rows ! 1) = ''s''" by (simp add: ex_rows_def)
  have r3: "int (row_index (ex_rows ! 1)) = 4" by (simp add: ex_rows_def)
  note inst = create_individual_excel_file_table
    [of "''S''" ex_rows, THEN conjunct2, rule_format, OF ne]
  from inst obtain df where
    c: "create_individual_excel_file ''S'' ex_rows = Some [(''Data'', df)]" and
    l: "length (df_rows df) = length ex_rows" and
    a: "\<forall>i<length ex_rows.
            map fst (df_rows df ! i) = df_columns df \<and>
            map_of (df_rows df ! i) ''_Source_File'' =
              Some (Text (source_file (ex_rows ! i))) \<and>
            map_of (df_rows df ! i) ''_Source_Sheet'' =
              Some (Text (source_sheet (ex_rows ! i))) \<and>
            map_of (df_rows df ! i) ''_Original_Row'' =
              Some (Number (int (row_index (ex_rows ! i))))"
    by (elim exE conjE)
  note b = a [rule_format, OF one]
  from l len have 1: "length (df_rows df) = 2" by (simp only:)
  from b [THEN conjunct2, THEN conjunct1] r1
  have 2: "map_of (df_rows df ! 1) ''_Source_File'' = Some (Text ''b.xlsx'')"
    by (simp only:)
  from b [THEN conjunct2, THEN conjunct2, THEN conjunct1] r2
  have 3: "map_of (df_rows df ! 1) ''_Source_Sheet'' = Some (Text ''s'')"
    by (simp only:)
  from b [THEN conjunct2, THEN conjunct2, THEN conjunct2] r3
  have 4: "map_of (df_rows df ! 1) ''_Original_Row'' = Some (Number 4)"
    by (simp only:)
  from c 1 2 3 4 have "create_individual_excel_file ''S'' ex_rows = Some [(''Data'', df)] \<and>
      length (df_rows df) = 2 \<and>
      map_of (df_rows df ! 1) ''_Source_File'' = Some (Text ''b.xlsx'') \<and>
      map_of (df_rows df ! 1) ''_Source_Sheet'' = Some (Text ''s'') \<and>
      map_of (df_rows df ! 1) ''_Original_Row'' = Some (Number 4)"
    by (intro conjI)
  then have "\<exists>df. create_individual_excel_file ''S'' ex_rows = Some [(''Data'', df)] \<and>
      length (df_rows df) = 2 \<and>
      map_of (df_rows df ! 1) ''_Source_File'' = Some (Text ''b.xlsx'') \<and>
      map_of (df_rows df ! 1) ''_Source_Sheet'' = Some (Text ''s'') \<and>
      map_of (df_rows df ! 1) ''_Original_Row'' = Some (Number 4)"
    by (rule exI [of _ df])
  with ne show ?thesis by (rule conjI)
qed

section \<open>The session data\<close>

lemma merge_results_get_gen:
  "dd_get (merge_results fr md) k =
     dd_get md k @ concat (map snd (filter (\<lambda>p. fst p = k) fr))"
proof (induction fr arbitrary: md)
  case Nil
  then show ?case by (simp add: merge_results_def)
next
  case (Cons p fr)
  obtain s dl where p: "p = (s, dl)" by (cases p)
  have "merge_results (p # fr) md = merge_results fr (dd_extend s dl md)"
    by (simp add: merge_results_def p)
  then show ?case by (simp add: Cons.IH dd_get_dd_extend p)
qed

lemma concat_snd_filter:
  "distinct (map fst fr) \<Longrightarrow> concat (map snd (filter (\<lambda>p. fst p = k) fr)) = dd_get fr k"
proof (induction fr)
  case Nil
  then show ?case by (simp add: dd_get_Nil)
next
  case (Cons p fr)
  obtain s dl where p: "p = (s, dl)" by (cases p)
  from Cons.prems have d: "distinct (map fst fr)" and n: "s \<notin> fst ` set fr"
    by (simp_all add: p)
  show ?case
  proof (cases "s = k")
    case True
    with n have "filter (\<lambda>p. fst p = k) fr = []" by (auto simp add: filter_empty_conv)
    with True show ?thesis by (simp add: p dd_get_def)
  next
    case False
    then show ?thesis using Cons.IH [OF d] by (simp add: p dd_get_def)
  qed
qed

lemma merge_results_get:
  "distinct (map fst fr) \<Longrightarrow>
   dd_get (merge_results fr md) k = dd_get md k @ dd_get fr k"
  by (simp add: merge_results_get_gen concat_snd_filter)

lemma merge_results_keys: "keys (merge_results fr md) = keys md \<union> keys fr"
proof (induction fr arbitrary: md)
  case Nil
  then show ?case by (simp add: merge_results_def keys_Nil)
next
  case (Cons p fr)
  obtain s dl where p: "p = (s, dl)" by (cases p)
  have "merge_results (p # fr) md = merge_results fr (dd_extend s dl md)"
    by (simp add: merge_results_def p)
  moreover have "keys (p # fr) = insert s (keys fr)" by (simp add: keys_def p)
  ultimately show ?case by (simp add: Cons.IH dd_extend_def keys_update)
qed

lemma merge_results_distinct:
  "distinct (map fst md) \<Longrightarrow> distinct (map fst (merge_results fr md))"
proof (induction fr arbitrary: md)
  case Nil
  then show ?case by (simp add: merge_results_def)
next
  case (Cons p fr)
  obtain s dl where p: "p = (s, dl)" by (cases p)
  have "merge_results (p # fr) md = merge_results fr (dd_extend s dl md)"
    by (simp add: merge_results_def p)
  then show ?case using Cons.prems by (simp add: Cons.IH distinct_dd_extend)
qed

lemma merge_results_Nil: "merge_results [] md = md"
  by (simp add: merge_results_def)

lemma fold_log_message:
  "fold (\<lambda>e. log_message e ty) l st =
     st\<lparr>processing_log := processing_log st @ map (\<lambda>m. \<lparr>message = m, entry_type = ty\<rparr>) l\<rparr>"
  by (induction l arbitrary: st) (simp_all add: log_message_def)

lemma process_one_eq:
  "process_one ts file st =
     st\<lparr>merged_data := merge_results (file_results file ts) (merged_data st),
        processed_files := insert (file_name file) (processed_files st),
        tmp_files := snd (process_excel_file file ts (tmp_files st)),
        processing_log := processing_log st @
          map (\<lambda>m. \<lparr>message = m, entry_type = ''info''\<rparr>) (file_log_of file ts)\<rparr>"
proof -
  obtain fr fl fs' where pe: "process_excel_file file ts (tmp_files st) = ((fr, fl), fs')"
    by (metis prod.collapse)
  have "fst (process_excel_file file ts (tmp_files st)) = fst (process_excel_file file ts [])"
    by (rule process_excel_file_fst)
  with pe have "fst (process_excel_file file ts []) = (fr, fl)" by simp
  then have "fr = file_results file ts" "fl = file_log_of file ts"
    by (simp_all add: file_results_def file_log_of_def)
  with pe show ?thesis
    by (simp add: process_one_def fold_log_message)
qed

lemma process_one_fields:
  "merged_data (process_one ts file st) = merge_results (file_results file ts) (merged_data st)"
  "processed_files (process_one ts file st) = insert (file_name file) (processed_files st)"
  "tmp_files (process_one ts file st) = snd (process_excel_file file ts (tmp_files st))"
  "processing_log (process_one ts file st) = processing_log st @
          map (\<lambda>m. \<lparr>message = m, entry_type = ''info''\<rparr>) (file_log_of file ts)"
  by (simp_all add: process_one_eq)

lemma fold_process_one_merged:
  "merged_data (fold (process_one ts) fs st) =
     fold (\<lambda>f. merge_results (file_results f ts)) fs (merged_data st)"
  by (induction fs arbitrary: st) (simp_all add: process_one_fields)

lemma fold_process_one_processed:
  "processed_files (fold (process_one ts) fs st) = processed_files st \<union> file_name ` set fs"
  by (induction fs arbitrary: st) (auto simp add: process_one_fields)

lemma fold_process_one_log:
  "processing_log (fold (process_one ts) fs st) =
     processing_log st @
     map (\<lambda>m. \<lparr>message = m, entry_type = ''info''\<rparr>) (concat (map (\<lambda>f. file_log_of f ts) fs))"
  by (induction fs arbitrary: st) (simp_all add: process_one_fields)

lemma fold_merge_get:
  "dd_get (fold (\<lambda>p. merge_results (file_results (fst p) (snd p))) h md) k =
     dd_get md k @ concat (map (\<lambda>p. dd_get (file_results (fst p) (snd p)) k) h)"
  by (induction h arbitrary: md) (simp_all add: merge_results_get file_results_distinct)

lemma fold_merge_keys:
  "keys (fold (\<lambda>p. merge_results (file_results (fst p) (snd p))) h md) =
     keys md \<union> (\<Union>p\<in>set h. keys (file_results (fst p) (snd p)))"
  by (induction h arbitrary: md) (auto simp add: merge_results_keys)

lemma fold_merge_distinct:
  "distinct (map fst md) \<Longrightarrow>
   distinct (map fst (fold (\<lambda>p. merge_results (file_results (fst p) (snd p))) h md))"
  by (induction h arbitrary: md) (simp_all add: merge_results_distinct)

lemma fold_merge_files:
  "fold (\<lambda>f. merge_results (file_results f ts)) fs md =
     fold (\<lambda>p. merge_results (file_results (fst p) (snd p))) (map (\<lambda>f. (f, ts)) fs) md"
  by (induction fs arbitrary: md) simp_all

lemma process_files_merged:
  "merged_data (process_files lim up ts st) =
     fold (\<lambda>p. merge_results (file_results (fst p) (snd p)))
       (map (\<lambda>f. (f, ts)) (files_to_process lim up ts st)) (merged_data st)"
  by (simp add: process_files_def fold_process_one_merged fold_merge_files)

lemma process_files_processed:
  "processed_files (process_files lim up ts st) =
     processed_files st \<union> file_name ` set (files_to_process lim up ts st)"
  by (simp add: process_files_def fold_process_one_processed)

lemma run_hist_fst: "fst (run_hist acts (st, h)) = run acts st"
proof (induction acts arbitrary: st h)
  case Nil
  then show ?case by (simp add: run_hist_def run_def)
next
  case (Cons a acts)
  obtain st' h' where s: "step_hist a (st, h) = (st', h')" by (cases "step_hist a (st, h)")
  have "fst (step_hist a (st, h)) = step a st" by (cases a) simp_all
  with s have st': "st' = step a st" by simp
  have "run_hist (a # acts) (st, h) = run_hist acts (st', h')"
    by (simp add: run_hist_def s)
  moreover have "run (a # acts) st = run acts st'" by (simp add: run_def st')
  ultimately show ?case using Cons.IH [of st' h'] by simp
qed

lemma step_hist_invariant:
  assumes "merged_data st = fold (\<lambda>p. merge_results (file_results (fst p) (snd p))) h []"
    and "processed_files st = (\<lambda>p. file_name (fst p)) ` set h"
    and "step_hist a (st, h) = (st', h')"
  shows "merged_data st' = fold (\<lambda>p. merge_results (file_results (fst p) (snd p))) h' [] \<and>
         processed_files st' = (\<lambda>p. file_name (fst p)) ` set h'"
proof (cases a)
  case (ProcessFiles lim up ts)
  with assms(3) have st': "st' = process_files lim up ts st"
    and h': "h' = h @ map (\<lambda>f. (f, ts)) (files_to_process lim up ts st)"
    by simp_all
  have "merged_data st' = fold (\<lambda>p. merge_results (file_results (fst p) (snd p))) h' []"
    by (simp add: st' h' process_files_merged assms(1))
  moreover have "processed_files st' = (\<lambda>p. file_name (fst p)) ` set h'"
    by (simp add: st' h' process_files_processed assms(2) image_Un image_image)
  ultimately show ?thesis by simp
next
  case ResetAll
  with assms(3) have "st' = reset_all_data st" and "h' = []" by simp_all
  then show ?thesis by (simp add: reset_all_data_def)
next
  case ClearLog
  with assms(3) have "st' = clear_log st" and "h' = h" by simp_all
  with assms(1,2) show ?thesis by (simp add: clear_log_def)
qed

lemma run_hist_invariant_gen:
  assumes "merged_data st = fold (\<lambda>p. merge_results (file_results (fst p) (snd p))) h []"
    and "processed_files st = (\<lambda>p. file_name (fst p)) ` set h"
    and "run_hist acts (st, h) = (st', h')"
  shows "merged_data st' = fold (\<lambda>p. merge_results (file_results (fst p) (snd p))) h' [] \<and>
         processed_files st' = (\<lambda>p. file_name (fst p)) ` set h'"
  using assms
proof (induction acts arbitrary: st h)
  case Nil
  then show ?case by (simp add: run_hist_def)
next
  case (Cons a acts)
  obtain st1 h1 where s: "step_hist a (st, h) = (st1, h1)" by (cases "step_hist a (st, h)")
  from Cons.prems(3) have r: "run_hist acts (st1, h1) = (st', h')"
    by (simp add: run_hist_def s)
  from step_hist_invariant [OF Cons.prems(1,2) s]
  have "merged_data st1 = fold (\<lambda>p. merge_results (file_results (fst p) (snd p))) h1 []"
    and "processed_files st1 = (\<lambda>p. file_name (fst p)) ` set h1"
    by simp_all
  then show ?case using r by (rule Cons.IH)
qed

lemma run_hist_invariant:
  assumes "run_hist acts (init_state fs, []) = (st, h)"
  shows "merged_data st = fold (\<lambda>p. merge_results (file_results (fst p) (snd p))) h []"
    and "processed_files st = (\<lambda>p. file_name (fst p)) ` set h"
proof -
  have "merged_data (init_state fs) =
      fold (\<lambda>p. merge_results (file_results (fst p) (snd p))) [] []"
    by (simp add: init_state_def)
  moreover have "processed_files (init_state fs) = (\<lambda>p. file_name (fst p)) ` set []"
    by (simp add: init_state_def)
  ultimately have "merged_data st = fold (\<lambda>p. merge_results (file_results (fst p) (snd p))) h [] \<and>
         processed_files st = (\<lambda>p. file_name (fst p)) ` set h"
    using assms by (rule run_hist_invariant_gen)
  then show "merged_data st = fold (\<lambda>p. merge_results (file_results (fst p) (snd p))) h []"
    and "processed_files st = (\<lambda>p. file_name (fst p)) ` set h"
    by simp_all
qed

lemma merged_history_get:
  assumes "merged_data st = fold (\<lambda>p. merge_results (file_results (fst p) (snd p))) h []"
  shows "dd_get (merged_data st) k =
           concat (map (\<lambda>p. dd_get (file_results (fst p) (snd p)) k) h)"
  by (simp add: assms fold_merge_get dd_get_Nil)

lemma merged_history_keys:
  assumes "merged_data st = fold (\<lambda>p. merge_results (file_results (fst p) (snd p))) h []"
  shows "k \<in> keys (merged_data st) \<longleftrightarrow>
           (\<exists>p\<in>set h. dd_get (file_results (fst p) (snd p)) k \<noteq> [])"
proof -
  have "\<And>p. k \<in> keys (file_results (fst p) (snd p)) \<longleftrightarrow>
      dd_get (file_results (fst p) (snd p)) k \<noteq> []"
  proof -
    fix p
    have d: "distinct (map fst (file_results (fst p) (snd p)))" by (rule file_results_distinct)
    have "no_empty_value (file_results (fst p) (snd p))" by (rule file_results_no_empty)
    with d have "\<forall>k\<in>keys (file_results (fst p) (snd p)).
        dd_get (file_results (fst p) (snd p)) k \<noteq> []"
      by (simp add: no_empty_value_iff)
    moreover have "k \<notin> keys (file_results (fst p) (snd p)) \<Longrightarrow>
        dd_get (file_results (fst p) (snd p)) k = []"
      by (simp add: keys_map_of dd_get_def)
    ultimately show "k \<in> keys (file_results (fst p) (snd p)) \<longleftrightarrow>
      dd_get (file_results (fst p) (snd p)) k \<noteq> []" by blast
  qed
  then show ?thesis by (simp add: assms fold_merge_keys keys_Nil)
qed

lemma merged_history_no_empty:
  assumes "merged_data st = fold (\<lambda>p. merge_results (file_results (fst p) (snd p))) h []"
  shows "distinct (map fst (merged_data st)) \<and> no_empty_value (merged_data st)"
proof -
  have d: "distinct (map fst (merged_data st))" by (simp add: assms fold_merge_distinct)
  have "\<forall>k\<in>keys (merged_data st). dd_get (merged_data st) k \<noteq> []"
  proof
    fix k assume "k \<in> keys (merged_data st)"
    then obtain p where "p \<in> set h" "dd_get (file_results (fst p) (snd p)) k \<noteq> []"
      using merged_history_keys [OF assms] by blast
    then show "dd_get (merged_data st) k \<noteq> []"
      by (auto simp add: merged_history_get [OF assms])
  qed
  with d show ?thesis by (simp add: no_empty_value_iff)
qed

text \<open>
  Claim C5. Merging the results of a file appends, for every key, the rows of the file to
  the rows the session holds for the key, after them and in their order, and adds the
  keys of the file to those of the session; nothing is removed. After any sequence of
  actions from the start of a session, no key of the session data holds the empty list,
  the rows under a key are the rows that the files processed since the last reset gave
  for it, in the order of processing, and a key is present exactly when one of these files
  gave a row for it.
\<close>

theorem merged_data_append_only:
  "(distinct (map fst fr) \<longrightarrow> dd_get (merge_results fr md) k = dd_get md k @ dd_get fr k) \<and>
   keys (merge_results fr md) = keys md \<union> keys fr \<and>
   dd_get (merged_data (process_one ts file st)) k =
     dd_get (merged_data st) k @ dd_get (file_results file ts) k \<and>
   (run_hist acts (init_state fs, []) = (st', h) \<longrightarrow>
      st' = run acts (init_state fs) \<and>
      processed_files st' = (\<lambda>p. file_name (fst p)) ` set h \<and>
      no_empty_value (merged_data st') \<and>
      dd_get (merged_data st') k =
        concat (map (\<lambda>p. dd_get (file_results (fst p) (snd p)) k) h) \<and>
      (k \<in> keys (merged_data st') \<longleftrightarrow>
         (\<exists>p\<in>set h. dd_get (file_results (fst p) (snd p)) k \<noteq> [])))"
proof (intro conjI impI)
  assume "distinct (map fst fr)"
  then show "dd_get (merge_results fr md) k = dd_get md k @ dd_get fr k"
    by (rule merge_results_get)
next
  show "keys (merge_results fr md) = keys md \<union> keys fr" by (rule merge_results_keys)
next
  show "dd_get (merged_data (process_one ts file st)) k =
     dd_get (merged_data st) k @ dd_get (file_results file ts) k"
    by (simp add: process_one_fields merge_results_get file_results_distinct)
next
  assume r: "run_hist acts (init_state fs, []) = (st', h)"
  from run_hist_fst [of acts "init_state fs" "[]"] r
  show "st' = run acts (init_state fs)" by simp
  note m = run_hist_invariant(1) [OF r]
  show "processed_files st' = (\<lambda>p. file_name (fst p)) ` set h"
    using r by (rule run_hist_invariant(2))
  show "no_empty_value (merged_data st')"
    using merged_history_no_empty [OF m] by simp
  show "dd_get (merged_data st') k =
        concat (map (\<lambda>p. dd_get (file_results (fst p) (snd p)) k) h)"
    using m by (rule merged_history_get)
  show "k \<in> keys (merged_data st') \<longleftrightarrow>
         (\<exists>p\<in>set h. dd_get (file_results (fst p) (snd p)) k \<noteq> [])"
    using m by (rule merged_history_keys)
qed

theorem merged_data_append_only_witness:
  "no_empty_value (merged_data (fst (run_hist
      [ProcessFiles None [ex_file, ex_file_dup] [''S'', ''summary'']] (init_state [], [])))) \<and>
   dd_get (merged_data (fst (run_hist
      [ProcessFiles None [ex_file, ex_file_dup] [''S'', ''summary'']] (init_state [], []))))
     ''S'' =
     [\<lparr>data = [(''A'', Number 1)], source_file = ''a.xlsx'',
       source_sheet = ''S'', row_index = 0\<rparr>]"
proof -
  let ?R = "run_hist [ProcessFiles None [ex_file, ex_file_dup] [''S'', ''summary'']]
      (init_state [], [])"
  have hyp: "?R = (fst ?R, snd ?R)" by (rule prod.collapse [symmetric])
  note inst = merged_data_append_only
    [where acts = "[ProcessFiles None [ex_file, ex_file_dup] [''S'', ''summary'']]"
       and fs = "[]" and st' = "fst ?R" and h = "snd ?R" and k = "''S''",
     THEN conjunct2, THEN conjunct2, THEN conjunct2, rule_format, OF hyp]
  from inst have 1: "no_empty_value (merged_data (fst ?R))" by (elim conjE)
  have 2: "dd_get (merged_data (fst ?R)) ''S'' =
     [\<lparr>data = [(''A'', Number 1)], source_file = ''a.xlsx'',
       source_sheet = ''S'', row_index = 0\<rparr>]"
    by code_simp
  from 1 2 show ?thesis by (rule conjI)
qed

section \<open>The guard against processing a file again\<close>

lemma files_to_process_new:
  "g \<in> set (files_to_process lim up ts st) \<Longrightarrow>
   g \<in> set up \<and> file_name g \<notin> processed_files st"
  by (auto simp add: files_to_process_def Let_def split: if_splits option.splits dest: in_set_takeD)

lemma files_to_process_skip:
  assumes "file_name f \<in> processed_files st"
  shows "files_to_process lim (us @ f # vs) ts st = files_to_process lim (us @ vs) ts st"
proof (cases "us @ vs = []")
  case True
  with assms show ?thesis by (simp add: files_to_process_def split: option.split)
next
  case False
  with assms show ?thesis by (simp add: files_to_process_def)
qed

lemma files_to_process_all_done:
  assumes "\<forall>f\<in>set up. file_name f \<in> processed_files st"
  shows "files_to_process lim up ts st = []"
proof -
  from assms have "filter (\<lambda>f. file_name f \<notin> processed_files st) up = []"
    by (simp add: filter_empty_conv)
  then show ?thesis by (simp add: files_to_process_def split: option.split)
qed

lemma file_results_source_file:
  assumes "r \<in> set (dd_get (file_results f ts) k)"
  shows "source_file r = file_name f"
proof (cases "file_value f")
  case (Inl e)
  with assms show ?thesis by (simp add: file_results_Inl dd_get_Nil)
next
  case (Inr xls)
  from Inr assms
  have "r \<in> set (round_rows (file_name f) xls (build_sheet_mapping (sheet_names xls)) k)"
    by (rule file_results_rows)
  then show ?thesis by (simp add: round_rows_source)
qed

lemma process_files_get:
  "dd_get (merged_data (process_files lim up ts st)) k =
     dd_get (merged_data st) k @
     concat (map (\<lambda>f. dd_get (file_results f ts) k) (files_to_process lim up ts st))"
  by (simp add: process_files_merged fold_merge_get comp_def)

lemma process_files_keeps_processed_rows:
  assumes "n \<in> processed_files st"
  shows "filter (\<lambda>r. source_file r = n) (dd_get (merged_data (process_files lim up ts st)) k) =
         filter (\<lambda>r. source_file r = n) (dd_get (merged_data st) k)"
proof -
  have "\<forall>r\<in>set (concat (map (\<lambda>f. dd_get (file_results f ts) k)
                  (files_to_process lim up ts st))). source_file r \<noteq> n"
  proof
    fix r
    assume "r \<in> set (concat (map (\<lambda>f. dd_get (file_results f ts) k)
                  (files_to_process lim up ts st)))"
    then obtain g where g: "g \<in> set (files_to_process lim up ts st)"
      and r: "r \<in> set (dd_get (file_results g ts) k)" by auto
    from r have "source_file r = file_name g" by (rule file_results_source_file)
    moreover from g have "file_name g \<notin> processed_files st"
      by (simp add: files_to_process_new)
    ultimately show "source_file r \<noteq> n" using assms by auto
  qed
  then have "filter (\<lambda>r. source_file r = n)
      (concat (map (\<lambda>f. dd_get (file_results f ts) k) (files_to_process lim up ts st))) = []"
    by (simp only: filter_empty_conv)
  then show ?thesis by (simp add: process_files_get)
qed

lemma filter_in_take:
  assumes "distinct (map g xs)"
  shows "filter (\<lambda>x. g x \<in> g ` set (take j xs)) xs = take j xs"
    and "filter (\<lambda>x. g x \<notin> g ` set (take j xs)) xs = drop j xs"
proof -
  have "distinct (map g (take j xs @ drop j xs))" using assms by simp
  then have dj: "g ` set (take j xs) \<inter> g ` set (drop j xs) = {}"
    by (simp only: map_append distinct_append set_map)
  have a: "filter (\<lambda>x. g x \<in> g ` set (take j xs)) (take j xs) = take j xs"
    by (simp add: filter_id_conv)
  have b: "filter (\<lambda>x. g x \<in> g ` set (take j xs)) (drop j xs) = []"
    using dj by (auto simp add: filter_empty_conv)
  have c: "filter (\<lambda>x. g x \<notin> g ` set (take j xs)) (take j xs) = []"
    by (simp add: filter_empty_conv)
  have d: "filter (\<lambda>x. g x \<notin> g ` set (take j xs)) (drop j xs) = drop j xs"
    using dj by (auto simp add: filter_id_conv)
  have "filter (\<lambda>x. g x \<in> g ` set (take j xs)) (take j xs @ drop j xs) = take j xs"
    by (simp only: filter_append a b append_Nil2)
  then show "filter (\<lambda>x. g x \<in> g ` set (take j xs)) xs = take j xs" by simp
  have "filter (\<lambda>x. g x \<notin> g ` set (take j xs)) (take j xs @ drop j xs) = drop j xs"
    by (simp only: filter_append c d append_Nil)
  then show "filter (\<lambda>x. g x \<notin> g ` set (take j xs)) xs = drop j xs" by simp
qed

lemma files_to_process_take:
  assumes "distinct (map file_name up)"
    and "processed_files st = file_name ` set (take j up)"
  shows "\<exists>n. files_to_process lim up ts st = take n (drop j up)"
proof -
  have nf: "filter (\<lambda>f. file_name f \<notin> processed_files st) up = drop j up"
    by (simp only: assms(2) filter_in_take(2) [OF assms(1)])
  show ?thesis
  proof (cases "up \<noteq> [] \<and> ts \<noteq> []")
    case True
    show ?thesis
    proof (cases lim)
      case None
      with True nf have "files_to_process lim up ts st = take (length (drop j up)) (drop j up)"
        by (simp add: files_to_process_def)
      then show ?thesis by (rule exI)
    next
      case (Some n)
      with True nf have "files_to_process lim up ts st = take n (drop j up)"
        by (simp add: files_to_process_def)
      then show ?thesis by (rule exI)
    qed
  next
    case False
    then have "files_to_process lim up ts st = take 0 (drop j up)"
      by (auto simp add: files_to_process_def)
    then show ?thesis by (rule exI)
  qed
qed

lemma process_files_prefix:
  assumes "distinct (map file_name up)"
    and "processed_files st = file_name ` set (take j up)"
    and "merged_data st = fold (\<lambda>f. merge_results (file_results f ts)) (take j up) []"
  shows "\<exists>j'. processed_files (process_files lim up ts st) = file_name ` set (take j' up) \<and>
     merged_data (process_files lim up ts st) =
       fold (\<lambda>f. merge_results (file_results f ts)) (take j' up) []"
proof -
  from files_to_process_take [OF assms(1,2)]
  obtain n where n: "files_to_process lim up ts st = take n (drop j up)" by blast
  have t: "take (j + n) up = take j up @ take n (drop j up)" by (rule take_add)
  have "processed_files (process_files lim up ts st) = file_name ` set (take (j + n) up)"
    by (simp add: process_files_processed n assms(2) t image_Un)
  moreover have "merged_data (process_files lim up ts st) =
       fold (\<lambda>f. merge_results (file_results f ts)) (take (j + n) up) []"
    by (simp add: process_files_merged n assms(3) t fold_merge_files)
  ultimately show ?thesis by blast
qed

lemma triggers_prefix_gen:
  assumes "distinct (map file_name up)"
    and "\<exists>j. processed_files st = file_name ` set (take j up) \<and>
       merged_data st = fold (\<lambda>f. merge_results (file_results f ts)) (take j up) []"
  shows "\<exists>j. processed_files (fold (\<lambda>lim. process_files lim up ts) lims st) =
         file_name ` set (take j up) \<and>
       merged_data (fold (\<lambda>lim. process_files lim up ts) lims st) =
         fold (\<lambda>f. merge_results (file_results f ts)) (take j up) []"
  using assms(2)
proof (induction lims arbitrary: st)
  case Nil
  then show ?case by simp
next
  case (Cons lim lims)
  from Cons.prems obtain j where "processed_files st = file_name ` set (take j up)"
    and "merged_data st = fold (\<lambda>f. merge_results (file_results f ts)) (take j up) []"
    by blast
  with assms(1) have "\<exists>j'. processed_files (process_files lim up ts st) =
        file_name ` set (take j' up) \<and>
     merged_data (process_files lim up ts st) =
       fold (\<lambda>f. merge_results (file_results f ts)) (take j' up) []"
    by (rule process_files_prefix)
  then show ?case by (simp add: Cons.IH)
qed

lemma triggers_prefix:
  assumes "distinct (map file_name up)"
  shows "\<exists>j. processed_files (fold (\<lambda>lim. process_files lim up ts) lims (init_state fs)) =
         file_name ` set (take j up) \<and>
       merged_data (fold (\<lambda>lim. process_files lim up ts) lims (init_state fs)) =
         fold (\<lambda>f. merge_results (file_results f ts)) (take j up) []"
proof -
  have "processed_files (init_state fs) = file_name ` set (take 0 up) \<and>
       merged_data (init_state fs) =
         fold (\<lambda>f. merge_results (file_results f ts)) (take 0 up) []"
    by (simp add: init_state_def)
  then have "\<exists>j. processed_files (init_state fs) = file_name ` set (take j up) \<and>
       merged_data (init_state fs) =
         fold (\<lambda>f. merge_results (file_results f ts)) (take j up) []"
    by (rule exI)
  with assms show ?thesis by (rule triggers_prefix_gen)
qed

lemma triggers_rows:
  assumes "distinct (map file_name up)"
  shows "dd_get (merged_data (fold (\<lambda>lim. process_files lim up ts) lims (init_state fs))) k =
     concat (map (\<lambda>f. dd_get (file_results f ts) k)
       (filter (\<lambda>f. file_name f \<in>
           processed_files (fold (\<lambda>lim. process_files lim up ts) lims (init_state fs))) up))"
proof -
  let ?st = "fold (\<lambda>lim. process_files lim up ts) lims (init_state fs)"
  from triggers_prefix [OF assms]
  obtain j where p: "processed_files ?st = file_name ` set (take j up)"
    and m: "merged_data ?st = fold (\<lambda>f. merge_results (file_results f ts)) (take j up) []"
    by blast
  have "filter (\<lambda>f. file_name f \<in> processed_files ?st) up = take j up"
    by (simp only: p filter_in_take(1) [OF assms])
  moreover have "dd_get (merged_data ?st) k =
      concat (map (\<lambda>f. dd_get (file_results f ts) k) (take j up))"
    by (simp add: m fold_merge_files fold_merge_get dd_get_Nil comp_def)
  ultimately show ?thesis by simp
qed

text \<open>
  Claim C3, as amended. A press of the button leaves the rows of every file name that is
  already processed as they are, under every key, and changes nothing when all uploaded
  names are processed. Where the uploaded files have pairwise distinct display names, after
  any number of presses from the start of a session, with any limits, the rows under a key
  are the rows of the uploaded files whose names are processed, each file once, in upload
  order; so their number is the sum of the rows these files gave for the key.
\<close>

theorem reprocessing_guard:
  "(n \<in> processed_files st \<longrightarrow>
      filter (\<lambda>r. source_file r = n) (dd_get (merged_data (process_files lim up ts st)) k) =
      filter (\<lambda>r. source_file r = n) (dd_get (merged_data st) k)) \<and>
   ((\<forall>f\<in>set up. file_name f \<in> processed_files st) \<longrightarrow> process_files lim up ts st = st) \<and>
   (distinct (map file_name up) \<longrightarrow>
      dd_get (merged_data (fold (\<lambda>lim. process_files lim up ts) lims (init_state fs))) k =
        concat (map (\<lambda>f. dd_get (file_results f ts) k)
          (filter (\<lambda>f. file_name f \<in>
             processed_files (fold (\<lambda>lim. process_files lim up ts) lims (init_state fs))) up)) \<and>
      length (dd_get (merged_data (fold (\<lambda>lim. process_files lim up ts) lims (init_state fs))) k) =
        sum_list (map (\<lambda>f. length (dd_get (file_results f ts) k))
          (filter (\<lambda>f. file_name f \<in>
             processed_files (fold (\<lambda>lim. process_files lim up ts) lims (init_state fs))) up)))"
proof (intro conjI impI)
  assume "n \<in> processed_files st"
  then show "filter (\<lambda>r. source_file r = n)
        (dd_get (merged_data (process_files lim up ts st)) k) =
      filter (\<lambda>r. source_file r = n) (dd_get (merged_data st) k)"
    by (rule process_files_keeps_processed_rows)
next
  assume "\<forall>f\<in>set up. file_name f \<in> processed_files st"
  then have "files_to_process lim up ts st = []" by (rule files_to_process_all_done)
  then show "process_files lim up ts st = st" by (simp add: process_files_def)
next
  assume d: "distinct (map file_name up)"
  let ?st = "fold (\<lambda>lim. process_files lim up ts) lims (init_state fs)"
  show r: "dd_get (merged_data ?st) k =
        concat (map (\<lambda>f. dd_get (file_results f ts) k)
          (filter (\<lambda>f. file_name f \<in> processed_files ?st) up))"
    using d by (rule triggers_rows)
  show "length (dd_get (merged_data ?st) k) =
        sum_list (map (\<lambda>f. length (dd_get (file_results f ts) k))
          (filter (\<lambda>f. file_name f \<in> processed_files ?st) up))"
    by (simp only: r length_concat map_map comp_def)
qed

theorem reprocessing_guard_witness:
  "filter (\<lambda>r. source_file r = ''a.xlsx'')
     (dd_get (merged_data (process_files None [ex_file, ex_file_dup] [''S'']
        (process_files (Some 1) [ex_file, ex_file_dup] [''S''] (init_state [])))) ''S'') =
   filter (\<lambda>r. source_file r = ''a.xlsx'')
     (dd_get (merged_data
        (process_files (Some 1) [ex_file, ex_file_dup] [''S''] (init_state []))) ''S'') \<and>
   length (dd_get (merged_data (fold (\<lambda>lim. process_files lim [ex_file, ex_file_dup] [''S''])
      [Some 1, None, None] (init_state []))) ''S'') =
     sum_list (map (\<lambda>f. length (dd_get (file_results f [''S'']) ''S''))
       (filter (\<lambda>f. file_name f \<in> processed_files
          (fold (\<lambda>lim. process_files lim [ex_file, ex_file_dup] [''S''])
             [Some 1, None, None] (init_state []))) [ex_file, ex_file_dup]))"
proof -
  have p: "''a.xlsx'' \<in> processed_files
      (process_files (Some 1) [ex_file, ex_file_dup] [''S''] (init_state []))"
    by code_simp
  have d: "distinct (map file_name [ex_file, ex_file_dup])"
    by (simp add: ex_file_def ex_file_dup_def)
  note a = reprocessing_guard
    [where n = "''a.xlsx''" and lim = None and up = "[ex_file, ex_file_dup]" and ts = "[''S'']"
       and st = "process_files (Some 1) [ex_file, ex_file_dup] [''S''] (init_state [])"
       and k = "''S''",
     THEN conjunct1, rule_format, OF p]
  note b = reprocessing_guard
    [where up = "[ex_file, ex_file_dup]" and ts = "[''S'']" and k = "''S''"
       and lims = "[Some 1, None, None]" and fs = "[]",
     THEN conjunct2, THEN conjunct2, rule_format, OF d, THEN conjunct2]
  from a b show ?thesis by (rule conjI)
qed

text \<open>
  Two uploads of one display name that are new at the same press are both processed: one
  processed name, one matching row in each file, two rows in the session.
\<close>

theorem reprocessing_guard_counterexample:
  "processed_files (process_files None [ex_file, ex_file2] [''S''] (init_state [])) = {''a.xlsx''} \<and>
   length (dd_get (merged_data (process_files None [ex_file, ex_file2] [''S''] (init_state [])))
      ''S'') = 2 \<and>
   length (dd_get (file_results ex_file [''S'']) ''S'') = 1 \<and>
   length (dd_get (file_results ex_file2 [''S'']) ''S'') = 1"
  by code_simp

lemma step_processed_mono:
  "a \<noteq> ResetAll \<Longrightarrow> processed_files st \<subseteq> processed_files (step a st)"
proof (cases a)
  case (ProcessFiles lim up ts)
  then show ?thesis by (simp add: process_files_processed)
next
  case ResetAll
  moreover assume "a \<noteq> ResetAll"
  ultimately show ?thesis by simp
next
  case ClearLog
  then show ?thesis by (simp add: clear_log_def)
qed

lemma run_processed_mono:
  "ResetAll \<notin> set acts \<Longrightarrow> processed_files st \<subseteq> processed_files (run acts st)"
proof (induction acts arbitrary: st)
  case Nil
  then show ?case by (simp add: run_def)
next
  case (Cons a acts)
  from Cons.prems have a: "a \<noteq> ResetAll" and r: "ResetAll \<notin> set acts" by auto
  have "run (a # acts) st = run acts (step a st)" by (simp add: run_def)
  moreover from a have "processed_files st \<subseteq> processed_files (step a st)"
    by (rule step_processed_mono)
  moreover from r have "processed_files (step a st) \<subseteq> processed_files (run acts (step a st))"
    by (rule Cons.IH)
  ultimately show ?case by simp
qed

lemma files_to_process_eq:
  "up \<noteq> [] \<and> ts \<noteq> [] \<Longrightarrow>
   files_to_process lim up ts st =
     (case lim of
        None \<Rightarrow> filter (\<lambda>g. file_name g \<notin> processed_files st) up
      | Some n \<Rightarrow> take n (filter (\<lambda>g. file_name g \<notin> processed_files st) up))"
  by (simp add: files_to_process_def Let_def)

text \<open>
  Claim C10, as amended. The guard reads the display name only. An uploaded file whose name
  is processed when the button is pressed is not among the files to process, and the press
  does what it would do without that file in the upload, whatever the file holds; the
  name stays processed through every later action but a reset. The files of a press are
  the uploaded files whose names are not yet processed, in upload order and cut at the
  limit: they are not compared with each other, and every one of them adds its rows to the
  session data and its name to the processed names, also where two of them have the same
  name.
\<close>

theorem processed_name_is_skipped:
  "(file_name f \<in> processed_files st \<longrightarrow>
      f \<notin> set (files_to_process lim up ts st) \<and>
      files_to_process lim (us @ f # vs) ts st = files_to_process lim (us @ vs) ts st \<and>
      process_files lim (us @ f # vs) ts st = process_files lim (us @ vs) ts st \<and>
      (ResetAll \<notin> set acts \<longrightarrow> file_name f \<in> processed_files (run acts st))) \<and>
   processed_files (process_files lim up ts st) =
      processed_files st \<union> file_name ` set (files_to_process lim up ts st) \<and>
   (up \<noteq> [] \<and> ts \<noteq> [] \<longrightarrow>
      files_to_process lim up ts st =
        (case lim of
           None \<Rightarrow> filter (\<lambda>g. file_name g \<notin> processed_files st) up
         | Some n \<Rightarrow> take n (filter (\<lambda>g. file_name g \<notin> processed_files st) up))) \<and>
   dd_get (merged_data (process_files lim up ts st)) k =
     dd_get (merged_data st) k @
     concat (map (\<lambda>g. dd_get (file_results g ts) k) (files_to_process lim up ts st))"
proof (intro conjI impI)
  assume p: "file_name f \<in> processed_files st"
  show "f \<notin> set (files_to_process lim up ts st)"
    using p files_to_process_new [of f lim up ts st] by blast
  show s: "files_to_process lim (us @ f # vs) ts st = files_to_process lim (us @ vs) ts st"
    using p by (rule files_to_process_skip)
  show "process_files lim (us @ f # vs) ts st = process_files lim (us @ vs) ts st"
    by (simp only: process_files_def s)
  assume "ResetAll \<notin> set acts"
  then have "processed_files st \<subseteq> processed_files (run acts st)"
    by (rule run_processed_mono)
  with p show "file_name f \<in> processed_files (run acts st)" by (rule rev_subsetD)
next
  show "processed_files (process_files lim up ts st) =
      processed_files st \<union> file_name ` set (files_to_process lim up ts st)"
    by (rule process_files_processed)
next
  assume "up \<noteq> [] \<and> ts \<noteq> []"
  then show "files_to_process lim up ts st =
        (case lim of
           None \<Rightarrow> filter (\<lambda>g. file_name g \<notin> processed_files st) up
         | Some n \<Rightarrow> take n (filter (\<lambda>g. file_name g \<notin> processed_files st) up))"
    by (rule files_to_process_eq)
next
  show "dd_get (merged_data (process_files lim up ts st)) k =
     dd_get (merged_data st) k @
     concat (map (\<lambda>g. dd_get (file_results g ts) k) (files_to_process lim up ts st))"
    by (rule process_files_get)
qed

theorem processed_name_is_skipped_witness:
  "process_files None ([ex_file] @ ex_file2 # []) [''S'']
     (process_files None [ex_file] [''S''] (init_state [])) =
   process_files None ([ex_file] @ []) [''S'']
     (process_files None [ex_file] [''S''] (init_state [])) \<and>
   file_name ex_file2 \<in> processed_files
     (run [ProcessFiles (Some 10) [ex_file2, ex_file_dup] [''S''], ClearLog]
        (process_files None [ex_file] [''S''] (init_state []))) \<and>
   files_to_process (Some 1) [ex_file, ex_file2] [''S''] (init_state []) = [ex_file] \<and>
   files_to_process (Some 10) [ex_file, ex_file2] [''S''] (init_state []) = [ex_file, ex_file2]"
proof -
  have p: "file_name ex_file2 \<in>
      processed_files (process_files None [ex_file] [''S''] (init_state []))"
    by code_simp
  have r: "ResetAll \<notin> set [ProcessFiles (Some 10) [ex_file2, ex_file_dup] [''S''], ClearLog]"
    by simp
  note inst = processed_name_is_skipped
    [where f = ex_file2 and st = "process_files None [ex_file] [''S''] (init_state [])"
       and lim = None and us = "[ex_file]" and vs = "[]" and ts = "[''S'']"
       and acts = "[ProcessFiles (Some 10) [ex_file2, ex_file_dup] [''S''], ClearLog]",
     THEN conjunct1, rule_format, OF p]
  note 1 = inst [THEN conjunct2, THEN conjunct2, THEN conjunct1]
  note 2 = inst [THEN conjunct2, THEN conjunct2, THEN conjunct2, rule_format, OF r]
  have ne: "[ex_file, ex_file2] \<noteq> [] \<and> [''S''] \<noteq> []" by simp
  have f: "filter (\<lambda>g. file_name g \<notin> processed_files (init_state [])) [ex_file, ex_file2] =
      [ex_file, ex_file2]"
    by (simp add: init_state_def)
  have t1: "take 1 [ex_file, ex_file2] = [ex_file]" by simp
  have t2: "take 10 [ex_file, ex_file2] = [ex_file, ex_file2]" by simp
  from processed_name_is_skipped
    [where lim = "Some 1" and up = "[ex_file, ex_file2]" and ts = "[''S'']"
       and st = "init_state []",
     THEN conjunct2, THEN conjunct2, THEN conjunct1, rule_format, OF ne]
  have 3: "files_to_process (Some 1) [ex_file, ex_file2] [''S''] (init_state []) = [ex_file]"
    by (simp only: f option.case t1)
  from processed_name_is_skipped
    [where lim = "Some 10" and up = "[ex_file, ex_file2]" and ts = "[''S'']"
       and st = "init_state []",
     THEN conjunct2, THEN conjunct2, THEN conjunct1, rule_format, OF ne]
  have 4: "files_to_process (Some 10) [ex_file, ex_file2] [''S''] (init_state []) =
      [ex_file, ex_file2]"
    by (simp only: f option.case t2)
  from 1 2 3 4 show ?thesis by (intro conjI)
qed

text \<open>
  Two different files of the same display name, both new at one press: the rows of the
  second are read and stored after those of the first.
\<close>

theorem processed_name_is_skipped_counterexample:
  "file_name ex_file = file_name ex_file2 \<and> ex_file \<noteq> ex_file2 \<and>
   merged_data (process_files None [ex_file, ex_file2] [''S''] (init_state [])) =
     [(''S'', [\<lparr>data = [(''A'', Number 1)], source_file = ''a.xlsx'',
                source_sheet = ''S'', row_index = 0\<rparr>,
               \<lparr>data = [(''A'', Number 2)], source_file = ''a.xlsx'',
                source_sheet = ''S'', row_index = 0\<rparr>])]"
  by code_simp

section \<open>Failures\<close>

lemma process_excel_file_Inl:
  "file_value f = Inl e \<Longrightarrow>
   process_excel_file f ts fs =
     (([], [ErrorProcessingFile (file_name f) e]), snd (named_temporary_file fs))"
  by (simp add: process_excel_file_def split: prod.split)

lemma file_log_of_Inl:
  "file_value f = Inl e \<Longrightarrow> file_log_of f ts = [ErrorProcessingFile (file_name f) e]"
  by (simp add: file_log_of_def process_excel_file_Inl)

lemma fold_process_one_drop_failed:
  assumes "file_value f = Inl e"
  shows "merged_data (fold (process_one ts) (pre @ f # post) st) =
         merged_data (fold (process_one ts) (pre @ post) st)"
proof -
  let ?M = "\<lambda>f. merge_results (file_results f ts)"
  have "merged_data (fold (process_one ts) (pre @ f # post) st) =
      fold ?M (pre @ f # post) (merged_data st)"
    by (rule fold_process_one_merged)
  also have "\<dots> = fold ?M post (merge_results (file_results f ts) (fold ?M pre (merged_data st)))"
    by simp
  also have "\<dots> = fold ?M post (fold ?M pre (merged_data st))"
    by (simp only: file_results_Inl [OF assms] merge_results_Nil)
  also have "\<dots> = fold ?M (pre @ post) (merged_data st)" by simp
  also have "\<dots> = merged_data (fold (process_one ts) (pre @ post) st)"
    by (rule fold_process_one_merged [symmetric])
  finally show ?thesis .
qed

text \<open>
  Claim C6. When opening the file raises, processing it returns no rows and the one log
  line that names the file and carries the message of the exception; the session data
  is left as it was and the line is added to the session log. In a batch, the session
  data at the end is what the batch without that file gives, and every file of the batch,
  the failed one too, is among the processed names.
\<close>

theorem file_error_is_contained:
  "file_value f = Inl e \<longrightarrow>
     fst (process_excel_file f ts fs) = ([], [ErrorProcessingFile (file_name f) e]) \<and>
     merged_data (process_one ts f st) = merged_data st \<and>
     processing_log (process_one ts f st) =
       processing_log st @
       [\<lparr>message = ErrorProcessingFile (file_name f) e, entry_type = ''info''\<rparr>] \<and>
     merged_data (fold (process_one ts) (pre @ f # post) st) =
       merged_data (fold (process_one ts) (pre @ post) st) \<and>
     processed_files (fold (process_one ts) (pre @ f # post) st) =
       processed_files st \<union> file_name ` set (pre @ f # post)"
proof (intro impI conjI)
  assume e: "file_value f = Inl e"
  show "fst (process_excel_file f ts fs) = ([], [ErrorProcessingFile (file_name f) e])"
    by (simp add: process_excel_file_Inl [OF e])
  show "merged_data (process_one ts f st) = merged_data st"
    by (simp add: process_one_fields file_results_Inl [OF e] merge_results_Nil)
  show "processing_log (process_one ts f st) =
       processing_log st @
       [\<lparr>message = ErrorProcessingFile (file_name f) e, entry_type = ''info''\<rparr>]"
    by (simp add: process_one_fields file_log_of_Inl [OF e])
  show "merged_data (fold (process_one ts) (pre @ f # post) st) =
       merged_data (fold (process_one ts) (pre @ post) st)"
    using e by (rule fold_process_one_drop_failed)
  show "processed_files (fold (process_one ts) (pre @ f # post) st) =
       processed_files st \<union> file_name ` set (pre @ f # post)"
    by (rule fold_process_one_processed)
qed

theorem file_error_is_contained_witness:
  "fst (process_excel_file ex_file_bad [''S''] []) =
     ([], [ErrorProcessingFile ''bad.xlsx'' ''File is not a zip file'']) \<and>
   merged_data (fold (process_one [''S'']) ([] @ ex_file_bad # [ex_file]) (init_state [])) =
     merged_data (fold (process_one [''S'']) ([] @ [ex_file]) (init_state [])) \<and>
   merged_data (fold (process_one [''S'']) ([] @ [ex_file]) (init_state [])) =
     [(''S'', [\<lparr>data = [(''A'', Number 1)], source_file = ''a.xlsx'',
                source_sheet = ''S'', row_index = 0\<rparr>])]"
proof -
  have e: "file_value ex_file_bad = Inl ''File is not a zip file''"
    by (simp add: ex_file_bad_def)
  have n: "file_name ex_file_bad = ''bad.xlsx''" by (simp add: ex_file_bad_def)
  note inst = file_error_is_contained
    [where f = ex_file_bad and e = "''File is not a zip file''" and ts = "[''S'']"
       and fs = "[]" and pre = "[]" and post = "[ex_file]" and st = "init_state []",
     rule_format, OF e]
  from inst [THEN conjunct1] n
  have 1: "fst (process_excel_file ex_file_bad [''S''] []) =
     ([], [ErrorProcessingFile ''bad.xlsx'' ''File is not a zip file''])"
    by (simp only:)
  note 2 = inst [THEN conjunct2, THEN conjunct2, THEN conjunct2, THEN conjunct1]
  have 3: "merged_data (fold (process_one [''S'']) ([] @ [ex_file]) (init_state [])) =
     [(''S'', [\<lparr>data = [(''A'', Number 1)], source_file = ''a.xlsx'',
                source_sheet = ''S'', row_index = 0\<rparr>])]"
    by code_simp
  from 1 2 3 show ?thesis by (intro conjI)
qed

section \<open>The types of the log entries\<close>

lemma process_files_log:
  "processing_log (process_files lim up ts st) =
     processing_log st @
     map (\<lambda>m. \<lparr>message = m, entry_type = ''info''\<rparr>)
       (concat (map (\<lambda>f. file_log_of f ts) (files_to_process lim up ts st)))"
  by (simp add: process_files_def fold_process_one_log)

lemma step_log_info:
  assumes "\<forall>e\<in>set (processing_log st). entry_type e = ''info''"
  shows "\<forall>e\<in>set (processing_log (step a st)). entry_type e = ''info''"
proof (cases a)
  case (ProcessFiles lim up ts)
  with assms show ?thesis by (auto simp add: process_files_log)
next
  case ResetAll
  then show ?thesis by (simp add: reset_all_data_def)
next
  case ClearLog
  then show ?thesis by (simp add: clear_log_def)
qed

lemma run_log_info_gen:
  "\<forall>e\<in>set (processing_log st). entry_type e = ''info'' \<Longrightarrow>
   \<forall>e\<in>set (processing_log (run acts st)). entry_type e = ''info''"
proof (induction acts arbitrary: st)
  case Nil
  then show ?case by (simp add: run_def)
next
  case (Cons a acts)
  have "run (a # acts) st = run acts (step a st)" by (simp add: run_def)
  moreover from Cons.prems have "\<forall>e\<in>set (processing_log (step a st)). entry_type e = ''info''"
    by (rule step_log_info)
  ultimately show ?case using Cons.IH by simp
qed

lemma run_log_info:
  "\<forall>e\<in>set (processing_log (run acts (init_state fs))). entry_type e = ''info''"
  by (rule run_log_info_gen) (simp add: init_state_def)

text \<open>
  Claim C7, on a file whose worksheet \<open>S\<close> fails to read and whose worksheet \<open>E\<close> has
  no data rows, with both as targets: the second target is still handled after the first
  has failed, and the entries for the read error and for the empty worksheet are stored
  with type \<open>info\<close>, as every entry is.
\<close>

theorem session_log_severity_is_info:
  "processing_log (process_files None [ex_file_err] [''S'', ''E''] (init_state [])) =
     [\<lparr>message = ProcessingFile ''c.xlsx'', entry_type = ''info''\<rparr>,
      \<lparr>message = FoundSheets 2 [''S'', ''E''], entry_type = ''info''\<rparr>,
      \<lparr>message = ErrorReadingSheet ''S'' ''boom'', entry_type = ''info''\<rparr>,
      \<lparr>message = SheetEmpty ''E'', entry_type = ''info''\<rparr>,
      \<lparr>message = NoMatchingSheets, entry_type = ''info''\<rparr>]"
  by code_simp

section \<open>The temporary file\<close>

lemma fold_max_ge: "a \<le> fold max fs (a::nat) \<and> (\<forall>x\<in>set fs. x \<le> fold max fs a)"
proof (induction fs arbitrary: a)
  case Nil
  then show ?case by simp
next
  case (Cons y fs)
  from Cons.IH [of "max y a"] show ?case by auto
qed

lemma named_temporary_file_fresh:
  "fst (named_temporary_file fs) \<notin> set fs \<and>
   snd (named_temporary_file fs) = fst (named_temporary_file fs) # fs"
proof -
  have "\<forall>x\<in>set fs. x < Suc (fold max fs 0)"
    using fold_max_ge [of 0 fs] by (simp add: less_Suc_eq_le)
  then show ?thesis by (auto simp add: named_temporary_file_def Let_def)
qed

lemma process_excel_file_tmp_removed:
  assumes "file_value f = Inr xls"
  shows "snd (process_excel_file f ts fs) = fs"
proof -
  obtain p fs1 where n: "named_temporary_file fs = (p, fs1)"
    by (cases "named_temporary_file fs")
  with named_temporary_file_fresh [of fs] have p: "p \<notin> set fs" and fs1: "fs1 = p # fs"
    by simp_all
  have "snd (process_excel_file f ts fs) = unlink p fs1"
    by (simp add: process_excel_file_def n assms split: prod.split)
  with p fs1 show ?thesis by (simp add: unlink_def)
qed

lemma process_excel_file_tmp_left:
  assumes "file_value f = Inl e"
  shows "snd (process_excel_file f ts fs) = fst (named_temporary_file fs) # fs"
  by (simp add: process_excel_file_Inl [OF assms] named_temporary_file_fresh)

text \<open>
  Claim C8, on a file that does not open, from an empty temporary directory: the
  temporary file is still there when the call returns, and still there after the next
  file of the batch has been processed; a file that opens leaves none.
\<close>

theorem temporary_file_survives_open_failure:
  "snd (process_excel_file ex_file_bad [''S''] []) = [1] \<and>
   snd (process_excel_file ex_file [''S''] []) = [] \<and>
   tmp_files (process_one [''S''] ex_file_bad (init_state [])) = [1] \<and>
   tmp_files (process_files None [ex_file_bad, ex_file] [''S''] (init_state [])) = [1]"
  by code_simp

end
